theory Spec2Isabelle
  imports Main
begin

section \<open>Token estimator (utils/count-token.ts)\<close>

text \<open>
  The tokenizer is the external library tiktoken (\<^verbatim>\<open>encoding_for_model("gpt-4o")\<close>).
  It is a parameter of the model: \<open>enc text\<close> is \<^verbatim>\<open>encoding.encode(text).length\<close>, and
  \<open>None\<close> when \<^verbatim>\<open>encode\<close> throws, as it does on a text that holds a special token of the
  encoding (\<^verbatim>\<open>countToken\<close> passes no list of allowed special tokens).
  The repository has two revisions of \<^verbatim>\<open>countToken\<close>: one returns the count of every
  line (used by utils/file-content.ts), one the count of the whole text (used by
  utils/review-session.ts).
\<close>

type_synonym tokenizer = "string \<Rightarrow> nat option"

text \<open>\<^verbatim>\<open>text.split("\n")\<close>: the empty text has one (empty) line.\<close>

fun split_acc :: "string \<Rightarrow> string \<Rightarrow> string list" where
  "split_acc cur [] = [rev cur]"
| "split_acc cur (c # cs) =
     (if c = CHR 0x0A then rev cur # split_acc [] cs else split_acc (c # cur) cs)"

definition split_newline :: "string \<Rightarrow> string list" where
  "split_newline text = split_acc [] text"

text \<open>
  \<^verbatim>\<open>lines.map(line => encoding.encode(line).length)\<close>: \<open>None\<close> when \<^verbatim>\<open>encode\<close> throws
  on one of the lines.
\<close>

definition countToken_lines :: "tokenizer \<Rightarrow> string \<Rightarrow> nat list option" where
  "countToken_lines enc text = those (map enc (split_newline text))"

text \<open>\<^verbatim>\<open>encoding.encode(text).length\<close>: \<open>None\<close> when \<^verbatim>\<open>encode\<close> throws.\<close>

definition countToken :: "tokenizer \<Rightarrow> string \<Rightarrow> nat option" where
  "countToken enc text = enc text"

section \<open>Chunked content reader (utils/file-content.ts)\<close>

text \<open>
  \<^verbatim>\<open>currentToken\<close> is a JavaScript number: reading \<^verbatim>\<open>lineTokens[endLine]\<close> outside the
  array gives \<^verbatim>\<open>undefined\<close>, adding it gives \<^verbatim>\<open>NaN\<close>, and every comparison with
  \<^verbatim>\<open>NaN\<close> is false. Line numbers and the budget are modelled as integers.
\<close>

datatype jsnum = Num int | NaN

fun js_lt :: "jsnum \<Rightarrow> int \<Rightarrow> bool" where
  "js_lt (Num a) b = (a < b)"
| "js_lt NaN b = False"

text \<open>\<^verbatim>\<open>xs[i]\<close>: \<open>None\<close> is \<^verbatim>\<open>undefined\<close>.\<close>

definition js_index :: "'a list \<Rightarrow> int \<Rightarrow> 'a option" where
  "js_index xs i = (if 0 \<le> i \<and> i < int (length xs) then Some (xs ! nat i) else None)"

fun js_add :: "jsnum \<Rightarrow> nat option \<Rightarrow> jsnum" where
  "js_add (Num a) (Some t) = Num (a + int t)"
| "js_add (Num a) None = NaN"
| "js_add NaN t = NaN"

text \<open>
  \<^verbatim>\<open>while (currentToken < token) { currentToken += lineTokens[endLine]; endLine++ }\<close>
\<close>

function getEndline_loop :: "nat list \<Rightarrow> int \<Rightarrow> int \<Rightarrow> jsnum \<Rightarrow> int" where
  "getEndline_loop lineTokens tok e cur =
     (if js_lt cur tok
      then getEndline_loop lineTokens tok (e + 1) (js_add cur (js_index lineTokens e))
      else e)"
  by pat_completeness auto
termination
proof (relation "measure (\<lambda>(lts, tok, e, cur).
          case cur of NaN \<Rightarrow> 0 | Num a \<Rightarrow> 1 + nat (int (length lts) - e))")
  show "wf (measure (\<lambda>(lts, tok, e, cur).
          case cur of NaN \<Rightarrow> 0 | Num a \<Rightarrow> 1 + nat (int (length lts) - e)))"
    by simp
next
  fix lineTokens :: "nat list" and tok e :: int and cur :: jsnum
  assume "js_lt cur tok"
  then obtain a where c: "cur = Num a" by (cases cur) auto
  show "((lineTokens, tok, e + 1, js_add cur (js_index lineTokens e)), (lineTokens, tok, e, cur))
        \<in> measure (\<lambda>(lts, tok, e, cur).
          case cur of NaN \<Rightarrow> 0 | Num a \<Rightarrow> 1 + nat (int (length lts) - e))"
    by (cases "js_index lineTokens e") (auto simp: c js_index_def split: if_splits)
qed

declare getEndline_loop.simps [simp del]

definition getEndline :: "int \<Rightarrow> nat list \<Rightarrow> int \<Rightarrow> int" where
  "getEndline startLine lineTokens tok = getEndline_loop lineTokens tok startLine (Num 0)"

text \<open>\<^verbatim>\<open>xs.slice(start, end)\<close>, negative positions counting from the end.\<close>

definition js_slice :: "'a list \<Rightarrow> int \<Rightarrow> int \<Rightarrow> 'a list" where
  "js_slice xs start fin =
     (let len = int (length xs);
          k = (if start < 0 then max (len + start) 0 else min start len);
          f = (if fin < 0 then max (len + fin) 0 else min fin len)
      in take (nat (f - k)) (drop (nat k) xs))"

text \<open>\<^verbatim>\<open>lines.join("\n")\<close>\<close>

fun join_newline :: "string list \<Rightarrow> string" where
  "join_newline [] = []"
| "join_newline [l] = l"
| "join_newline (l # ls) = l @ [CHR 0x0A] @ join_newline ls"

record chunk =
  content :: string
  endLine :: int
  isEnded :: bool

datatype read_error = ReadError | TokenizerError

text \<open>
  \<open>rd root filePath\<close> is the file system: the text of the file at
  \<^verbatim>\<open>path.join(root, filePath)\<close>, \<open>None\<close> when the file is missing or unreadable (the
  promise of \<^verbatim>\<open>readFile\<close> is then rejected, and \<^verbatim>\<open>getFileContent\<close> with it). An
  exception of the tokenizer rejects the promise of \<^verbatim>\<open>getFileContent\<close> too.
  \<open>startLine\<close> is optional: \<^verbatim>\<open>startLine ?? 0\<close> for the loop, and
  \<^verbatim>\<open>slice(undefined, endLine)\<close> starts at 0 too.
\<close>

definition getFileContent ::
  "tokenizer \<Rightarrow> (string \<Rightarrow> string \<Rightarrow> string option) \<Rightarrow> string \<Rightarrow> string \<Rightarrow> int \<Rightarrow> int option
   \<Rightarrow> read_error + chunk" where
  "getFileContent enc rd root filePath tok startLine =
     (case rd root filePath of
        None \<Rightarrow> Inl ReadError
      | Some text \<Rightarrow>
          (case countToken_lines enc text of
             None \<Rightarrow> Inl TokenizerError
           | Some lineTokens \<Rightarrow>
               (let start = (case startLine of None \<Rightarrow> 0 | Some n \<Rightarrow> n);
                    e = getEndline start lineTokens tok;
                    ended = (e = int (length lineTokens));
                    contentByLine = js_slice (split_newline text) start e
                in Inr \<lparr>content = join_newline contentByLine, endLine = e,
                          isEnded = ended\<rparr>)))"

text \<open>
  The \<open>n\<close>-th call of a caller that iterates with one budget, the first call at line 0
  and each later one at the \<^verbatim>\<open>endLine\<close> of the call before.
\<close>

fun follow_up ::
  "tokenizer \<Rightarrow> (string \<Rightarrow> string \<Rightarrow> string option) \<Rightarrow> string \<Rightarrow> string \<Rightarrow> int \<Rightarrow> nat
   \<Rightarrow> read_error + chunk" where
  "follow_up enc rd root filePath tok 0 = getFileContent enc rd root filePath tok (Some 0)"
| "follow_up enc rd root filePath tok (Suc n) =
     (case follow_up enc rd root filePath tok n of
        Inl e \<Rightarrow> Inl e
      | Inr r \<Rightarrow> getFileContent enc rd root filePath tok (Some (endLine r)))"

section \<open>Session store (utils/review-session.ts)\<close>

record ReviewFile =
  path :: string
  reviewed :: bool
  feedback :: string
  agentReview :: "string option"
  tokenCount :: "int option"

record ReviewSession =
  id_session :: string
  projectFolder :: string
  files :: "ReviewFile list"
  createdAt :: string
  updatedAt :: string
  totalTokenCount :: int
  currentSessionTokenCount :: int
  tokenLimit :: int
  completed :: bool

text \<open>
  The sessions directory: one JSON file per session, named after the session id, and
  the file \<^verbatim>\<open>project-index.json\<close>. A file that is missing or does not parse reads as
  \<open>None\<close> (\<^verbatim>\<open>getSession\<close> and \<^verbatim>\<open>getSessionIdForProject\<close> return \<^verbatim>\<open>null\<close>).
\<close>

record store =
  sessions :: "string \<rightharpoonup> ReviewSession"
  projectIndex :: "string \<rightharpoonup> string"

definition empty_store :: store where
  "empty_store = \<lparr>sessions = Map.empty, projectIndex = Map.empty\<rparr>"

text \<open>
  What one call reads from outside the store: the clock (\<^verbatim>\<open>Date.now()\<close> in decimal and
  \<^verbatim>\<open>new Date().toISOString()\<close>), the random suffix
  \<^verbatim>\<open>Math.random().toString(36).substring(2, 7)\<close>, the file system and the file discovery
  of utils/list-files.ts (\<open>Inl\<close> when it throws).
\<close>

datatype ListFilesMode = Glob | Changed | Staged | Resume

record world =
  dateNow :: string
  random36 :: string
  isoNow :: string
  readFileSync :: "string \<Rightarrow> string \<Rightarrow> string option"
  listFiles :: "string \<Rightarrow> ListFilesMode \<Rightarrow> string option \<Rightarrow> string + string list"

definition saveProjectSessionIndex :: "string \<Rightarrow> string \<Rightarrow> store \<Rightarrow> store" where
  "saveProjectSessionIndex pf sid st = st\<lparr>projectIndex := (projectIndex st)(pf \<mapsto> sid)\<rparr>"

text \<open>\<^verbatim>\<open>index[projectFolder] || null\<close>: the empty string is falsy.\<close>

definition getSessionIdForProject :: "store \<Rightarrow> string \<Rightarrow> string option" where
  "getSessionIdForProject st pf =
     (case projectIndex st pf of
        None \<Rightarrow> None
      | Some sid \<Rightarrow> if sid = [] then None else Some sid)"

text \<open>
  \<^verbatim>\<open>saveSession\<close> refreshes \<^verbatim>\<open>updatedAt\<close> on the object it is given and writes the file
  named after \<^verbatim>\<open>session.id\<close>; the refreshed object is returned with the store.
\<close>

definition saveSession :: "world \<Rightarrow> ReviewSession \<Rightarrow> store \<Rightarrow> ReviewSession \<times> store" where
  "saveSession w s st =
     (let s' = s\<lparr>updatedAt := isoNow w\<rparr>
      in (s', st\<lparr>sessions := (sessions st)(id_session s' \<mapsto> s')\<rparr>))"

definition getSession :: "store \<Rightarrow> string \<Rightarrow> ReviewSession option" where
  "getSession st sid = sessions st sid"

definition newReviewFile :: "string \<Rightarrow> ReviewFile" where
  "newReviewFile file =
     \<lparr>path = file, reviewed = False, feedback = [], agentReview = None, tokenCount = None\<rparr>"

definition createSession ::
  "world \<Rightarrow> string \<Rightarrow> string list \<Rightarrow> int \<Rightarrow> store \<Rightarrow> ReviewSession \<times> store" where
  "createSession w pf fls lim st =
     (let sid = ''session_'' @ dateNow w @ ''_'' @ random36 w;
          s = \<lparr>id_session = sid, projectFolder = pf, files = map newReviewFile fls,
               createdAt = isoNow w, updatedAt = isoNow w, totalTokenCount = 0,
               currentSessionTokenCount = 0, tokenLimit = lim, completed = False\<rparr>;
          (s', st') = saveSession w s st
      in (s', saveProjectSessionIndex pf sid st'))"

text \<open>\<^verbatim>\<open>xs.findIndex(p)\<close>, \<open>None\<close> for -1.\<close>

fun findIndex :: "('a \<Rightarrow> bool) \<Rightarrow> 'a list \<Rightarrow> nat option" where
  "findIndex P [] = None"
| "findIndex P (x # xs) = (if P x then Some 0 else map_option Suc (findIndex P xs))"

text \<open>\<^verbatim>\<open>if (agentReview)\<close>: an absent argument and the empty string are falsy.\<close>

definition truthy :: "string option \<Rightarrow> bool" where
  "truthy a = (case a of None \<Rightarrow> False | Some t \<Rightarrow> t \<noteq> [])"

text \<open>\<^verbatim>\<open>file.tokenCount || 0\<close>\<close>

definition tokenCount_or_0 :: "ReviewFile \<Rightarrow> int" where
  "tokenCount_or_0 f = (case tokenCount f of None \<Rightarrow> 0 | Some n \<Rightarrow> if n = 0 then 0 else n)"

text \<open>\<^verbatim>\<open>files.reduce((sum, file) => sum + (file.tokenCount || 0), 0)\<close>\<close>

definition sumTokenCount :: "ReviewFile list \<Rightarrow> int" where
  "sumTokenCount fls = foldl (\<lambda>sum file. sum + tokenCount_or_0 file) 0 fls"

text \<open>
  The body of \<^verbatim>\<open>updateFileReview\<close> once the session and the index of the file are found:
  the assignments to \<^verbatim>\<open>session.files[fileIndex]\<close>, the recomputed total and the window
  counter. The three calls of \<^verbatim>\<open>countToken\<close> come in this order, and the result is
  \<open>None\<close> when one of them throws: the exception leaves \<^verbatim>\<open>updateFileReview\<close> before
  \<^verbatim>\<open>saveSession\<close>, so that the assignments made so far are lost with the object.
\<close>

definition reviewFileAt ::
  "tokenizer \<Rightarrow> ReviewSession \<Rightarrow> nat \<Rightarrow> string \<Rightarrow> bool \<Rightarrow> string \<Rightarrow> string option
   \<Rightarrow> ReviewSession option" where
  "reviewFileAt enc s fileIndex fileContent rv fb ar =
     (let f0 = files s ! fileIndex;
          f1 = f0\<lparr>reviewed := rv, feedback := fb\<rparr>;
          f2 = (if truthy ar then f1\<lparr>agentReview := ar\<rparr> else f1)
      in case countToken enc fileContent of
           None \<Rightarrow> None
         | Some fileTokens \<Rightarrow>
             (case countToken enc fb of
                None \<Rightarrow> None
              | Some feedbackTokens \<Rightarrow>
                  (case (case ar of
                           None \<Rightarrow> Some 0
                         | Some t \<Rightarrow> if t \<noteq> [] then countToken enc t else Some 0) of
                     None \<Rightarrow> None
                   | Some agentReviewTokens \<Rightarrow>
                       (let currentFileTokens =
                              int fileTokens + int feedbackTokens + int agentReviewTokens;
                            f3 = f2\<lparr>tokenCount := Some currentFileTokens\<rparr>;
                            fls = (files s)[fileIndex := f3]
                        in Some (s\<lparr>files := fls, totalTokenCount := sumTokenCount fls,
                                   currentSessionTokenCount :=
                                     currentSessionTokenCount s + currentFileTokens\<rparr>)))))"

text \<open>
  \<open>Inl TokenizerThrows\<close> is the exception of \<^verbatim>\<open>countToken\<close> leaving
  \<^verbatim>\<open>updateFileReview\<close>; \<open>Inr\<close> holds what the function returns (\<open>None\<close> for
  \<^verbatim>\<open>null\<close>) and the store.
\<close>

datatype thrown = TokenizerThrows

definition updateFileReview ::
  "tokenizer \<Rightarrow> world \<Rightarrow> string \<Rightarrow> string \<Rightarrow> string \<Rightarrow> bool \<Rightarrow> string \<Rightarrow> string option \<Rightarrow> store
   \<Rightarrow> thrown + ReviewSession option \<times> store" where
  "updateFileReview enc w sid filePath fileContent rv fb ar st =
     (case getSession st sid of
        None \<Rightarrow> Inr (None, st)
      | Some s \<Rightarrow>
          (case findIndex (\<lambda>f. path f = filePath) (files s) of
             None \<Rightarrow> Inr (None, st)
           | Some fileIndex \<Rightarrow>
               (case reviewFileAt enc s fileIndex fileContent rv fb ar of
                  None \<Rightarrow> Inl TokenizerThrows
                | Some s1 \<Rightarrow> (let (s', st') = saveSession w s1 st in Inr (Some s', st')))))"

definition getNextFileToReview :: "store \<Rightarrow> string \<Rightarrow> ReviewFile option" where
  "getNextFileToReview st sid =
     (case getSession st sid of
        None \<Rightarrow> None
      | Some s \<Rightarrow> find (\<lambda>file. \<not> reviewed file) (files s))"

definition completeSession :: "world \<Rightarrow> string \<Rightarrow> store \<Rightarrow> ReviewSession option \<times> store" where
  "completeSession w sid st =
     (case getSession st sid of
        None \<Rightarrow> (None, st)
      | Some s \<Rightarrow> (let (s', st') = saveSession w (s\<lparr>completed := True\<rparr>) st in (Some s', st')))"

definition resetSessionTokenCount ::
  "world \<Rightarrow> string \<Rightarrow> store \<Rightarrow> ReviewSession option \<times> store" where
  "resetSessionTokenCount w sid st =
     (case getSession st sid of
        None \<Rightarrow> (None, st)
      | Some s \<Rightarrow>
          (let (s', st') = saveSession w (s\<lparr>currentSessionTokenCount := 0\<rparr>) st
           in (Some s', st')))"

section \<open>Tool handlers (index.ts)\<close>

text \<open>
  index.ts holds three revisions of the server. The handlers below are those of the first
  one, the only one in which complete-review-session counts the pending files and
  get-next-review-file tells the two cases of an exceeded limit apart.

  The messages of the \<^verbatim>\<open>"error"\<close> status, in the order the handlers produce them:
  "No session found for the provided key", "Session not found", "Failed to reset session
  token count", "Glob pattern is required when mode is 'glob'", "Error listing files: ...",
  "No session found to resume for the provided project root", "No files found to review.
  ...", "Failed to update file review. Session or file not found." and "Failed to complete
  session".
\<close>

datatype error_message =
    NoSessionForKey
  | SessionNotFound
  | FailedToReset
  | GlobRequired
  | ErrorListingFiles string
  | NoSessionToResume
  | NoFilesFound
  | FailedToUpdate
  | FailedToComplete

text \<open>
  The JSON answers by their \<^verbatim>\<open>status\<close>: \<open>ErrorStatus\<close> is \<^verbatim>\<open>"error"\<close> with a message;
  \<open>PendingFiles reviewedCount pendingCount totalFiles\<close> is the \<^verbatim>\<open>"error"\<close> of
  complete-review-session ("Cannot complete session: N files still need to be reviewed");
  \<open>TokenLimitExceededAllReviewed tokenCount tokenLimit\<close> is
  \<^verbatim>\<open>"token_limit_exceeded_all_reviewed"\<close>; \<open>TokenLimitExceeded tokenCount tokenLimit
  pendingFiles\<close> is \<^verbatim>\<open>"token_limit_exceeded"\<close>; \<open>AllFilesReviewed\<close> is the
  \<^verbatim>\<open>"completed"\<close> of get-next-review-file; \<open>NextFile filePath\<close>, \<open>ReviewSubmitted session
  exceedsTokenLimit\<close> and \<open>SessionCompleted session\<close> are the three \<^verbatim>\<open>"success"\<close> answers.
  \<open>ToolCallFailed\<close> is no answer of the handler: an exception has left it, and the tool
  call fails.
\<close>

datatype response =
    ErrorStatus error_message
  | Resumed ReviewSession
  | Created ReviewSession
  | TokenLimitExceededAllReviewed int int
  | TokenLimitExceeded int int nat
  | AllFilesReviewed
  | NextFile string
  | ReviewSubmitted ReviewSession bool
  | PendingFiles nat nat nat
  | SessionCompleted ReviewSession
  | ToolCallFailed

text \<open>
  Every handler that takes a key starts with the same lines: the key is a session id when
  \<^verbatim>\<open>getSession(key)\<close> finds a session, and a project root looked up in the index otherwise.
\<close>

definition resolveKey :: "store \<Rightarrow> string \<Rightarrow> string option" where
  "resolveKey st key =
     (case getSession st key of
        Some s \<Rightarrow> Some key
      | None \<Rightarrow> getSessionIdForProject st key)"

text \<open>
  start-review-session has the same block twice, for \<^verbatim>\<open>mode === "resume"\<close> and for the
  other modes: an existing session that is not completed is reset and returned. \<open>None\<close>
  means that the block falls through.
\<close>

definition resume_existing :: "world \<Rightarrow> string \<Rightarrow> store \<Rightarrow> (response \<times> store) option" where
  "resume_existing w projectRoot st =
     (case getSessionIdForProject st projectRoot of
        None \<Rightarrow> None
      | Some existingSessionId \<Rightarrow>
          (case getSession st existingSessionId of
             None \<Rightarrow> None
           | Some existingSession \<Rightarrow>
               if completed existingSession then None
               else (case resetSessionTokenCount w existingSessionId st of
                       (Some s, st') \<Rightarrow> Some (Resumed s, st')
                     | (None, st') \<Rightarrow> Some (ErrorStatus FailedToReset, st'))))"

definition list_for_mode ::
  "world \<Rightarrow> string \<Rightarrow> ListFilesMode \<Rightarrow> string option \<Rightarrow> response + string list" where
  "list_for_mode w projectRoot mode glob =
     (case mode of
        Glob \<Rightarrow>
          if \<not> truthy glob then Inl (ErrorStatus GlobRequired)
          else (case listFiles w projectRoot Glob glob of
                  Inl e \<Rightarrow> Inl (ErrorStatus (ErrorListingFiles e))
                | Inr l \<Rightarrow> Inr l)
      | Changed \<Rightarrow>
          (case listFiles w projectRoot Changed None of
             Inl e \<Rightarrow> Inl (ErrorStatus (ErrorListingFiles e))
           | Inr l \<Rightarrow> Inr l)
      | Staged \<Rightarrow>
          (case listFiles w projectRoot Staged None of
             Inl e \<Rightarrow> Inl (ErrorStatus (ErrorListingFiles e))
           | Inr l \<Rightarrow> Inr l)
      | Resume \<Rightarrow> Inl (ErrorStatus NoSessionToResume))"

definition create_new ::
  "world \<Rightarrow> string \<Rightarrow> ListFilesMode \<Rightarrow> string option \<Rightarrow> string list option \<Rightarrow> int \<Rightarrow> store
   \<Rightarrow> response \<times> store" where
  "create_new w projectRoot mode glob fls lim st =
     (case (case fls of
              Some (f # fs) \<Rightarrow> Inr (f # fs)
            | _ \<Rightarrow>
                (case list_for_mode w projectRoot mode glob of
                   Inl r \<Rightarrow> Inl r
                 | Inr l \<Rightarrow> if l = [] then Inl (ErrorStatus NoFilesFound) else Inr l)) of
        Inl r \<Rightarrow> (r, st)
      | Inr l \<Rightarrow> (let (s, st') = createSession w projectRoot l lim st in (Created s, st')))"

definition start_review_session ::
  "world \<Rightarrow> string \<Rightarrow> ListFilesMode \<Rightarrow> string option \<Rightarrow> string list option \<Rightarrow> int option
   \<Rightarrow> bool option \<Rightarrow> store \<Rightarrow> response \<times> store" where
  "start_review_session w projectRoot mode glob fls tokenLimit_arg forceNew_arg st =
     (let lim = (case tokenLimit_arg of None \<Rightarrow> 10000 | Some n \<Rightarrow> n);
          forceNew = (case forceNew_arg of None \<Rightarrow> False | Some b \<Rightarrow> b)
      in case (if mode = Resume \<and> \<not> forceNew then resume_existing w projectRoot st else None) of
           Some r \<Rightarrow> r
         | None \<Rightarrow>
             (case (if \<not> forceNew \<and> mode \<noteq> Resume then resume_existing w projectRoot st
                    else None) of
                Some r \<Rightarrow> r
              | None \<Rightarrow> create_new w projectRoot mode glob fls lim st))"

text \<open>\<^verbatim>\<open>session.files.filter(file => !file.reviewed).length\<close>\<close>

definition pendingCount :: "ReviewSession \<Rightarrow> nat" where
  "pendingCount s = length (filter (\<lambda>file. \<not> reviewed file) (files s))"

definition get_next_review_file :: "store \<Rightarrow> string \<Rightarrow> response" where
  "get_next_review_file st key =
     (case resolveKey st key of
        None \<Rightarrow> ErrorStatus NoSessionForKey
      | Some sid \<Rightarrow>
          (case getSession st sid of
             None \<Rightarrow> ErrorStatus SessionNotFound
           | Some s \<Rightarrow>
               if currentSessionTokenCount s > tokenLimit s
               then (if pendingCount s = 0
                     then TokenLimitExceededAllReviewed (currentSessionTokenCount s) (tokenLimit s)
                     else TokenLimitExceeded (currentSessionTokenCount s) (tokenLimit s)
                            (pendingCount s))
               else (case getNextFileToReview st sid of
                       None \<Rightarrow> AllFilesReviewed
                     | Some nextFile \<Rightarrow> NextFile (path nextFile))))"

text \<open>
  submit-file-review: \<^verbatim>\<open>root = projectRoot || key\<close>; the file content is the empty
  string when the file does not exist or reading it throws; the call is
  \<^verbatim>\<open>updateFileReview(sessionId, filePath, fileContent, true, agentReview)\<close>, so the review
  text arrives in the \<^verbatim>\<open>feedback\<close> parameter and the sixth parameter is absent. The
  call is outside the \<^verbatim>\<open>try\<close> of the handler: an exception of the tokenizer leaves the
  handler, with nothing saved.
\<close>

definition submitRoot :: "string \<Rightarrow> string option \<Rightarrow> string" where
  "submitRoot key projectRoot =
     (case projectRoot of
        None \<Rightarrow> key
      | Some r \<Rightarrow> if r \<noteq> [] then r else key)"

definition submit_file_review ::
  "tokenizer \<Rightarrow> world \<Rightarrow> string \<Rightarrow> string \<Rightarrow> string \<Rightarrow> string option \<Rightarrow> store
   \<Rightarrow> response \<times> store" where
  "submit_file_review enc w key filePath review projectRoot st =
     (case resolveKey st key of
        None \<Rightarrow> (ErrorStatus NoSessionForKey, st)
      | Some sid \<Rightarrow>
          (let root = submitRoot key projectRoot;
               fileContent = (case readFileSync w root filePath of None \<Rightarrow> [] | Some c \<Rightarrow> c)
           in case updateFileReview enc w sid filePath fileContent True review None st of
                Inl e \<Rightarrow> (ToolCallFailed, st)
              | Inr (None, st') \<Rightarrow> (ErrorStatus FailedToUpdate, st')
              | Inr (Some s, st') \<Rightarrow>
                  (ReviewSubmitted s (currentSessionTokenCount s > tokenLimit s), st')))"

definition complete_review_session :: "world \<Rightarrow> string \<Rightarrow> store \<Rightarrow> response \<times> store" where
  "complete_review_session w key st =
     (case resolveKey st key of
        None \<Rightarrow> (ErrorStatus NoSessionForKey, st)
      | Some sid \<Rightarrow>
          (case getSession st sid of
             None \<Rightarrow> (ErrorStatus SessionNotFound, st)
           | Some s \<Rightarrow>
               if pendingCount s > 0
               then (PendingFiles (length (filter reviewed (files s))) (pendingCount s)
                       (length (files s)), st)
               else (case completeSession w sid st of
                       (None, st') \<Rightarrow> (ErrorStatus FailedToComplete, st')
                     | (Some s', st') \<Rightarrow> (SessionCompleted s', st'))))"

section \<open>Runs of the engine\<close>

text \<open>
  A run is a sequence of tool calls on a sessions directory that starts empty; each call
  carries what it reads from the outside world. The tools generate-review-report,
  get-file-review and get-agent-instructions write no session and are left out.
\<close>

datatype call =
    StartReviewSession world string ListFilesMode "string option" "string list option"
      "int option" "bool option"
  | GetNextReviewFile string
  | SubmitFileReview world string string string "string option"
  | CompleteReviewSession world string

fun step :: "tokenizer \<Rightarrow> store \<Rightarrow> call \<Rightarrow> store" where
  "step enc st (StartReviewSession w projectRoot mode glob fls lim forceNew) =
     snd (start_review_session w projectRoot mode glob fls lim forceNew st)"
| "step enc st (GetNextReviewFile key) = st"
| "step enc st (SubmitFileReview w key filePath review projectRoot) =
     snd (submit_file_review enc w key filePath review projectRoot st)"
| "step enc st (CompleteReviewSession w key) = snd (complete_review_session w key st)"

definition run :: "tokenizer \<Rightarrow> call list \<Rightarrow> store" where
  "run enc cs = foldl (step enc) empty_store cs"

section \<open>Notions used in the statements\<close>

text \<open>
  \<open>put_session ts s st\<close> is the store after \<^verbatim>\<open>saveSession\<close> has written \<open>s\<close> at time
  \<open>ts\<close>; \<open>fresh_session\<close> is the object that \<^verbatim>\<open>createSession\<close> builds;
  \<open>submissionCost\<close> is \<^verbatim>\<open>currentFileTokens\<close>, \<open>None\<close> when the tokenizer throws;
  \<open>reviewedEntry\<close> is the file entry and \<open>reviewedAt\<close> the session after the assignments
  of \<^verbatim>\<open>updateFileReview\<close> with the cost \<open>c\<close>; \<open>fileContentRead\<close> is the
  \<^verbatim>\<open>fileContent\<close> that submit-file-review passes on; \<open>later_duplicates_pending\<close> says
  that an entry with an earlier entry of the same path is not reviewed.
\<close>

definition put_session :: "string \<Rightarrow> ReviewSession \<Rightarrow> store \<Rightarrow> store" where
  "put_session ts s st =
     st\<lparr>sessions := (sessions st)(id_session s \<mapsto> s\<lparr>updatedAt := ts\<rparr>)\<rparr>"

definition fresh_session :: "world \<Rightarrow> string \<Rightarrow> string list \<Rightarrow> int \<Rightarrow> ReviewSession" where
  "fresh_session w pf fls lim =
     \<lparr>id_session = ''session_'' @ dateNow w @ ''_'' @ random36 w, projectFolder = pf,
      files = map newReviewFile fls, createdAt = isoNow w, updatedAt = isoNow w,
      totalTokenCount = 0, currentSessionTokenCount = 0, tokenLimit = lim, completed = False\<rparr>"

definition submissionCost :: "tokenizer \<Rightarrow> string \<Rightarrow> string \<Rightarrow> string option \<Rightarrow> int option" where
  "submissionCost enc fc fb ar =
     (case countToken enc fc of
        None \<Rightarrow> None
      | Some a \<Rightarrow>
          (case countToken enc fb of
             None \<Rightarrow> None
           | Some b \<Rightarrow>
               (case (case ar of
                        None \<Rightarrow> Some 0
                      | Some t \<Rightarrow> if t \<noteq> [] then countToken enc t else Some 0) of
                  None \<Rightarrow> None
                | Some c \<Rightarrow> Some (int a + int b + int c))))"

definition reviewedEntry :: "ReviewFile \<Rightarrow> bool \<Rightarrow> string \<Rightarrow> string option \<Rightarrow> int \<Rightarrow> ReviewFile" where
  "reviewedEntry f rv fb ar c =
     f\<lparr>reviewed := rv, feedback := fb,
       agentReview := (if truthy ar then ar else agentReview f),
       tokenCount := Some c\<rparr>"

definition reviewedAt ::
  "ReviewSession \<Rightarrow> nat \<Rightarrow> bool \<Rightarrow> string \<Rightarrow> string option \<Rightarrow> int \<Rightarrow> ReviewSession" where
  "reviewedAt s i rv fb ar c =
     s\<lparr>files := (files s)[i := reviewedEntry (files s ! i) rv fb ar c],
       totalTokenCount := sumTokenCount ((files s)[i := reviewedEntry (files s ! i) rv fb ar c]),
       currentSessionTokenCount := currentSessionTokenCount s + c\<rparr>"

definition fileContentRead :: "world \<Rightarrow> string \<Rightarrow> string option \<Rightarrow> string \<Rightarrow> string" where
  "fileContentRead w key projectRoot filePath =
     (case readFileSync w (submitRoot key projectRoot) filePath of None \<Rightarrow> [] | Some c \<Rightarrow> c)"

definition later_duplicates_pending :: "ReviewSession \<Rightarrow> bool" where
  "later_duplicates_pending s \<longleftrightarrow>
     (\<forall>j<length (files s). (\<exists>i<j. path (files s ! i) = path (files s ! j))
        \<longrightarrow> \<not> reviewed (files s ! j))"

section \<open>Example inputs\<close>

text \<open>
  Two tokenizers: one token for each character, and the same with the exception of
  tiktoken on a text that holds the end-of-text marker. A file of ten lines of ten
  characters each; a world in which no file of the project can be read; the sessions that
  a review of \<^verbatim>\<open>a.ts\<close> and \<^verbatim>\<open>b.ts\<close> goes through.
\<close>

definition char_tokenizer :: tokenizer where
  "char_tokenizer t = Some (length t)"

fun starts_with :: "string \<Rightarrow> string \<Rightarrow> bool" where
  "starts_with [] t = True"
| "starts_with (p # ps) [] = False"
| "starts_with (p # ps) (c # cs) = (p = c \<and> starts_with ps cs)"

fun holds_marker :: "string \<Rightarrow> string \<Rightarrow> bool" where
  "holds_marker m [] = starts_with m []"
| "holds_marker m (c # cs) = (starts_with m (c # cs) \<or> holds_marker m cs)"

definition special_tokenizer :: tokenizer where
  "special_tokenizer t =
     (if holds_marker ''<|endoftext|>'' t then None else Some (length t))"

definition ten_lines :: string where
  "ten_lines = ''0123456789\<newline>0123456789\<newline>0123456789\<newline>0123456789\<newline>0123456789\<newline>0123456789\<newline>0123456789\<newline>0123456789\<newline>0123456789\<newline>0123456789''"

definition world_at :: "string \<Rightarrow> world" where
  "world_at ts =
     \<lparr>dateNow = ''1700000000000'', random36 = ''k3x9q'', isoNow = ts,
      readFileSync = (\<lambda>root p. None), listFiles = (\<lambda>root m g. Inr [])\<rparr>"

definition example_id :: string where
  "example_id = ''session_1700000000000_k3x9q''"

definition store_of :: "ReviewSession \<Rightarrow> store" where
  "store_of s =
     \<lparr>sessions = [id_session s \<mapsto> s], projectIndex = [projectFolder s \<mapsto> id_session s]\<rparr>"

definition session_ab :: ReviewSession where
  "session_ab =
     \<lparr>id_session = ''session_1700000000000_k3x9q'', projectFolder = ''/repo'',
      files = [newReviewFile ''a.ts'', newReviewFile ''b.ts''],
      createdAt = ''t1'', updatedAt = ''t1'', totalTokenCount = 0,
      currentSessionTokenCount = 0, tokenLimit = 100, completed = False\<rparr>"

definition file_a :: ReviewFile where
  "file_a = \<lparr>path = ''a.ts'', reviewed = True, feedback = ''looks good'', agentReview = None,
             tokenCount = Some 10\<rparr>"

definition file_b :: ReviewFile where
  "file_b = \<lparr>path = ''b.ts'', reviewed = True, feedback = ''ok'', agentReview = None,
             tokenCount = Some 2\<rparr>"

definition session_a :: ReviewSession where
  "session_a = session_ab\<lparr>files := [file_a, newReviewFile ''b.ts''], updatedAt := ''t2'',
                 totalTokenCount := 10, currentSessionTokenCount := 10\<rparr>"

definition session_reviewed :: ReviewSession where
  "session_reviewed = session_ab\<lparr>files := [file_a, file_b], updatedAt := ''t3'',
                 totalTokenCount := 12, currentSessionTokenCount := 12\<rparr>"

definition session_done :: ReviewSession where
  "session_done = session_reviewed\<lparr>updatedAt := ''t4'', completed := True\<rparr>"

definition session_over :: ReviewSession where
  "session_over = session_ab\<lparr>currentSessionTokenCount := 150\<rparr>"

definition session_reviewed_over :: ReviewSession where
  "session_reviewed_over = session_reviewed\<lparr>currentSessionTokenCount := 110\<rparr>"

definition session_a_again :: ReviewSession where
  "session_a_again =
     session_ab\<lparr>files := [file_a\<lparr>feedback := [], tokenCount := Some 0\<rparr>, newReviewFile ''b.ts''],
       updatedAt := ''t3'', totalTokenCount := 0, currentSessionTokenCount := 10\<rparr>"

definition session_dup :: ReviewSession where
  "session_dup = session_ab\<lparr>files := [newReviewFile ''a.ts'', newReviewFile ''a.ts'']\<rparr>"

definition session_dup_a :: ReviewSession where
  "session_dup_a = session_ab\<lparr>files := [file_a, newReviewFile ''a.ts''], updatedAt := ''t2'',
                     totalTokenCount := 10, currentSessionTokenCount := 10\<rparr>"

definition start_ab :: call where
  "start_ab = StartReviewSession (world_at ''t1'') ''/repo'' Glob None
                (Some [''a.ts'', ''b.ts'']) (Some 100) None"

definition submit_a :: call where
  "submit_a = SubmitFileReview (world_at ''t2'') ''/repo'' ''a.ts'' ''looks good'' None"

definition submit_b :: call where
  "submit_b = SubmitFileReview (world_at ''t3'') ''/repo'' ''b.ts'' ''ok'' None"

definition complete_ab :: call where
  "complete_ab = CompleteReviewSession (world_at ''t4'') ''/repo''"

definition resubmit_a :: call where
  "resubmit_a = SubmitFileReview (world_at ''t3'') ''/repo'' ''a.ts'' [] None"

definition start_dup :: call where
  "start_dup = StartReviewSession (world_at ''t1'') ''/repo'' Glob None
                 (Some [''a.ts'', ''a.ts'']) (Some 100) None"

section \<open>Properties of the chunked content reader\<close>

lemma getEndline_replicate_0: "getEndline 0 (replicate 10 10) 35 = 4"
  by (simp add: getEndline_def getEndline_loop.simps js_index_def)

lemma getEndline_replicate_4: "getEndline 4 (replicate 10 10) 35 = 8"
  by (simp add: getEndline_def getEndline_loop.simps js_index_def)

lemma getEndline_replicate_8: "getEndline 8 (replicate 10 10) 35 = 11"
  by (simp add: getEndline_def getEndline_loop.simps js_index_def)

lemma getEndline_outside:
  assumes "s < 0 \<or> int (length lts) \<le> s" and "0 < tok"
  shows "getEndline s lts tok = s + 1"
proof -
  have i: "js_index lts s = None"
    using assms(1) by (auto simp: js_index_def)
  have "getEndline_loop lts tok s (Num 0) = getEndline_loop lts tok (s + 1) NaN"
    using assms(2) by (subst getEndline_loop.simps) (simp add: i)
  also have "\<dots> = s + 1"
    by (subst getEndline_loop.simps) simp
  finally show ?thesis
    by (simp add: getEndline_def)
qed

lemma those_map_length: "those (map f xs) = Some ys \<Longrightarrow> length ys = length xs"
  by (induction xs arbitrary: ys) (auto split: option.splits)

lemma those_map_Some: "(\<forall>x\<in>set xs. f x \<noteq> None) \<Longrightarrow> \<exists>ys. those (map f xs) = Some ys"
  by (induction xs) auto

lemma countToken_lines_length:
  "countToken_lines enc body = Some lts \<Longrightarrow> length lts = length (split_newline body)"
  by (simp add: countToken_lines_def those_map_length)

lemma getFileContent_readable:
  assumes "rd root filePath = Some body" and "countToken_lines enc body = Some lts"
  shows "getFileContent enc rd root filePath tok (Some n) =
           Inr \<lparr>content = join_newline (js_slice (split_newline body) n (getEndline n lts tok)),
                endLine = getEndline n lts tok,
                isEnded = (getEndline n lts tok = int (length lts))\<rparr>"
  using assms by (simp add: getFileContent_def Let_def)

lemma follow_up_tail:
  assumes "rd root filePath = Some body" and "countToken_lines enc body = Some (replicate 10 10)"
  shows "\<exists>r. follow_up enc rd root filePath 35 (n + 2) = Inr r \<and> endLine r = 11 + int n
              \<and> \<not> isEnded r"
proof (induction n)
  case 0
  have "follow_up enc rd root filePath 35 (Suc (Suc 0)) =
          getFileContent enc rd root filePath 35 (Some 8)"
    using assms by (simp add: getFileContent_readable getEndline_replicate_0
        getEndline_replicate_4)
  then show ?case
    using assms by (simp add: getFileContent_readable getEndline_replicate_8)
next
  case (Suc n)
  then obtain r where r: "follow_up enc rd root filePath 35 (n + 2) = Inr r"
    "endLine r = 11 + int n" by blast
  have "getEndline (11 + int n) (replicate 10 10) 35 = 11 + int n + 1"
    by (rule getEndline_outside) simp_all
  then show ?case
    using r assms by (simp add: getFileContent_readable)
qed

lemma ten_lines_tokens: "countToken_lines char_tokenizer ten_lines = Some (replicate 10 10)"
  by (simp add: countToken_lines_def split_newline_def ten_lines_def char_tokenizer_def
      numeral_eq_Suc)

text \<open>
  Claim C1. For a readable file and every start line (given or absent) and budget: every
  result that \<^verbatim>\<open>getFileContent\<close> returns has \<^verbatim>\<open>isEnded\<close> true if and only if its
  \<^verbatim>\<open>endLine\<close> equals the number of lines that splitting the content on newlines gives;
  and \<^verbatim>\<open>getFileContent\<close> returns a result whenever the tokenizer returns on every line
  of the file (the loop of \<^verbatim>\<open>getEndline\<close> always ends).
\<close>

theorem getFileContent_isEnded_iff:
  assumes "rd root filePath = Some body"
  shows "(\<forall>r. getFileContent enc rd root filePath tok startLine = Inr r \<longrightarrow>
            (isEnded r \<longleftrightarrow> endLine r = int (length (split_newline body)))) \<and>
         ((\<forall>l\<in>set (split_newline body). enc l \<noteq> None) \<longrightarrow>
            (\<exists>r. getFileContent enc rd root filePath tok startLine = Inr r))"
proof (intro conjI allI impI)
  fix r
  assume "getFileContent enc rd root filePath tok startLine = Inr r"
  with assms show "isEnded r \<longleftrightarrow> endLine r = int (length (split_newline body))"
    by (auto simp: getFileContent_def Let_def countToken_lines_length split: option.splits)
next
  assume "\<forall>l\<in>set (split_newline body). enc l \<noteq> None"
  then obtain lts where "countToken_lines enc body = Some lts"
    unfolding countToken_lines_def using those_map_Some by blast
  with assms show "\<exists>r. getFileContent enc rd root filePath tok startLine = Inr r"
    by (simp add: getFileContent_def Let_def)
qed

theorem getFileContent_isEnded_iff_witness:
  "(\<lambda>root p. Some ''ab\<newline>c'') ''/repo'' ''a.ts'' = Some ''ab\<newline>c'' \<and>
   getFileContent char_tokenizer (\<lambda>root p. Some ''ab\<newline>c'') ''/repo'' ''a.ts'' 1 (Some 0)
     = Inr \<lparr>content = ''ab'', endLine = 1, isEnded = False\<rparr> \<and>
   getFileContent char_tokenizer (\<lambda>root p. Some ''ab\<newline>c'') ''/repo'' ''a.ts'' 3 (Some 0)
     = Inr \<lparr>content = ''ab\<newline>c'', endLine = 2, isEnded = True\<rparr> \<and>
   int (length (split_newline ''ab\<newline>c'')) = 2"
proof -
  have t: "countToken_lines char_tokenizer ''ab\<newline>c'' = Some [2, 1]"
    by (simp add: countToken_lines_def split_newline_def char_tokenizer_def)
  have g: "getEndline 0 [2, Suc 0] 1 = 1" "getEndline 0 [2, Suc 0] 3 = 2"
    by (simp_all add: getEndline_def getEndline_loop.simps js_index_def)
  have e: "getFileContent char_tokenizer (\<lambda>root p. Some ''ab\<newline>c'') ''/repo'' ''a.ts'' 1 (Some 0)
     = Inr \<lparr>content = ''ab'', endLine = 1, isEnded = False\<rparr>"
    "getFileContent char_tokenizer (\<lambda>root p. Some ''ab\<newline>c'') ''/repo'' ''a.ts'' 3 (Some 0)
     = Inr \<lparr>content = ''ab\<newline>c'', endLine = 2, isEnded = True\<rparr>"
    by (simp_all add: getFileContent_def t g split_newline_def js_slice_def Let_def)
  have l: "int (length (split_newline ''ab\<newline>c'')) = 2"
    by (simp add: split_newline_def)
  from getFileContent_isEnded_iff [where rd = "\<lambda>root p. Some ''ab\<newline>c''" and body = "''ab\<newline>c''"
      and enc = char_tokenizer and root = "''/repo''" and filePath = "''a.ts''" and tok = 3
      and startLine = "Some 0"]
  have "isEnded \<lparr>content = ''ab\<newline>c'', endLine = 2, isEnded = True\<rparr> \<longleftrightarrow>
        endLine \<lparr>content = ''ab\<newline>c'', endLine = 2, isEnded = True\<rparr>
          = int (length (split_newline ''ab\<newline>c''))"
    using e(2) by blast
  with e l show ?thesis by simp
qed

text \<open>
  Claim C7. On a file of ten lines of 10 tokens each and budget 35, the call at line 0
  returns \<^verbatim>\<open>endLine = 4\<close> and \<^verbatim>\<open>isEnded = false\<close>, as claimed. The iteration goes on with
  8 and then, at start line 8, the loop reads \<^verbatim>\<open>lineTokens[10]\<close> past the end of the
  array with only 20 tokens accumulated: the result is \<^verbatim>\<open>endLine = 11\<close> and
  \<^verbatim>\<open>isEnded = false\<close>. No call of the iteration has \<^verbatim>\<open>endLine = 10\<close> or
  \<^verbatim>\<open>isEnded = true\<close>.
\<close>

theorem follow_up_never_ends:
  assumes "rd root filePath = Some body" and "countToken_lines enc body = Some (replicate 10 10)"
  shows "(\<exists>r. getFileContent enc rd root filePath 35 (Some 0) = Inr r \<and> endLine r = 4
              \<and> \<not> isEnded r) \<and>
         (\<exists>r. getFileContent enc rd root filePath 35 (Some 8) = Inr r \<and> endLine r = 11
              \<and> \<not> isEnded r) \<and>
         (\<forall>n. \<exists>r. follow_up enc rd root filePath 35 n = Inr r \<and> endLine r \<noteq> 10
              \<and> \<not> isEnded r)"
proof (intro conjI allI)
  show "\<exists>r. getFileContent enc rd root filePath 35 (Some 0) = Inr r \<and> endLine r = 4
              \<and> \<not> isEnded r"
    using assms by (simp add: getFileContent_readable getEndline_replicate_0)
  show "\<exists>r. getFileContent enc rd root filePath 35 (Some 8) = Inr r \<and> endLine r = 11
              \<and> \<not> isEnded r"
    using assms by (simp add: getFileContent_readable getEndline_replicate_8)
  fix n :: nat
  consider "n = 0" | "n = 1" | m where "n = m + 2"
    by (metis One_nat_def add_2_eq_Suc' not0_implies_Suc)
  then show "\<exists>r. follow_up enc rd root filePath 35 n = Inr r \<and> endLine r \<noteq> 10 \<and> \<not> isEnded r"
  proof cases
    case 1
    then show ?thesis
      using assms by (simp add: getFileContent_readable getEndline_replicate_0)
  next
    case 2
    then show ?thesis
      using assms by (simp add: getFileContent_readable getEndline_replicate_0
          getEndline_replicate_4)
  next
    case 3
    then show ?thesis
      using assms follow_up_tail [where rd = rd and root = root and filePath = filePath
          and body = body and enc = enc and n = m] by auto
  qed
qed

theorem follow_up_never_ends_witness:
  "(\<exists>r. getFileContent char_tokenizer (\<lambda>root p. Some ten_lines) ''/repo'' ''a.ts'' 35 (Some 0)
          = Inr r \<and> endLine r = 4 \<and> \<not> isEnded r) \<and>
   (\<exists>r. getFileContent char_tokenizer (\<lambda>root p. Some ten_lines) ''/repo'' ''a.ts'' 35 (Some 8)
          = Inr r \<and> endLine r = 11 \<and> \<not> isEnded r) \<and>
   (\<forall>n. \<exists>r. follow_up char_tokenizer (\<lambda>root p. Some ten_lines) ''/repo'' ''a.ts'' 35 n = Inr r
        \<and> endLine r \<noteq> 10 \<and> \<not> isEnded r)"
  using follow_up_never_ends [where rd = "\<lambda>root p. Some ten_lines" and body = ten_lines
      and enc = char_tokenizer and root = "''/repo''" and filePath = "''a.ts''"]
  by (simp add: ten_lines_tokens)

section \<open>Effect of the store functions and of the handlers\<close>

lemma saveSession_eq:
  "saveSession w s st = (s\<lparr>updatedAt := isoNow w\<rparr>, put_session (isoNow w) s st)"
  by (simp add: saveSession_def put_session_def Let_def)

lemma sessions_put_session:
  "sessions (put_session ts s st) k =
     (if k = id_session s then Some (s\<lparr>updatedAt := ts\<rparr>) else sessions st k)"
  by (simp add: put_session_def)

lemma projectIndex_put_session: "projectIndex (put_session ts s st) = projectIndex st"
  by (simp add: put_session_def)

lemma getSession_put_session:
  "getSession (put_session ts s st) k =
     (if k = id_session s then Some (s\<lparr>updatedAt := ts\<rparr>) else getSession st k)"
  by (simp add: getSession_def sessions_put_session)

lemma findIndex_Some:
  "findIndex P xs = Some i \<Longrightarrow> i < length xs \<and> P (xs ! i) \<and> (\<forall>j<i. \<not> P (xs ! j))"
proof (induction xs arbitrary: i)
  case Nil
  then show ?case by simp
next
  case (Cons x xs)
  show ?case
  proof (cases "P x")
    case True
    with Cons.prems show ?thesis by simp
  next
    case False
    with Cons.prems obtain i' where i': "findIndex P xs = Some i'" "i = Suc i'"
      by auto
    from Cons.IH [OF i'(1)] False i'(2) show ?thesis
      by (auto simp: less_Suc_eq_0_disj)
  qed
qed

lemma findIndex_None: "findIndex P xs = None \<longleftrightarrow> (\<forall>x\<in>set xs. \<not> P x)"
  by (induction xs) auto

lemma findIndex_path_member:
  assumes "filePath \<in> path ` set (files s)"
  shows "\<exists>i. findIndex (\<lambda>f. path f = filePath) (files s) = Some i"
proof (cases "findIndex (\<lambda>f. path f = filePath) (files s)")
  case None
  with assms show ?thesis by (auto simp: findIndex_None)
next
  case (Some i)
  then show ?thesis by blast
qed

lemma reviewFileAt_eq:
  "reviewFileAt enc s i fc rv fb ar =
     map_option (reviewedAt s i rv fb ar) (submissionCost enc fc fb ar)"
  by (simp add: reviewFileAt_def reviewedAt_def reviewedEntry_def submissionCost_def Let_def
      split: option.splits)

lemma reviewFileAt_SomeD:
  assumes "reviewFileAt enc s i fc rv fb ar = Some s1"
  obtains c where "submissionCost enc fc fb ar = Some c" and "s1 = reviewedAt s i rv fb ar c"
  using assms by (auto simp: reviewFileAt_eq)

lemma path_reviewedEntry [simp]: "path (reviewedEntry f rv fb ar c) = path f"
  by (simp add: reviewedEntry_def)

lemma reviewed_reviewedEntry [simp]: "reviewed (reviewedEntry f rv fb ar c) = rv"
  by (simp add: reviewedEntry_def)

lemma tokenCount_reviewedEntry [simp]: "tokenCount (reviewedEntry f rv fb ar c) = Some c"
  by (simp add: reviewedEntry_def)

lemma files_reviewedAt:
  "files (reviewedAt s i rv fb ar c) = (files s)[i := reviewedEntry (files s ! i) rv fb ar c]"
  by (simp add: reviewedAt_def)

lemma reviewedAt_fields [simp]:
  "id_session (reviewedAt s i rv fb ar c) = id_session s"
  "projectFolder (reviewedAt s i rv fb ar c) = projectFolder s"
  "completed (reviewedAt s i rv fb ar c) = completed s"
  "tokenLimit (reviewedAt s i rv fb ar c) = tokenLimit s"
  "totalTokenCount (reviewedAt s i rv fb ar c) = sumTokenCount (files (reviewedAt s i rv fb ar c))"
  "currentSessionTokenCount (reviewedAt s i rv fb ar c) = currentSessionTokenCount s + c"
  by (simp_all add: reviewedAt_def)

lemma updateFileReview_found:
  assumes "getSession st sid = Some s"
      and "findIndex (\<lambda>f. path f = filePath) (files s) = Some i"
  shows "updateFileReview enc w sid filePath fc rv fb ar st =
           (case reviewFileAt enc s i fc rv fb ar of
              None \<Rightarrow> Inl TokenizerThrows
            | Some s1 \<Rightarrow> Inr (Some (s1\<lparr>updatedAt := isoNow w\<rparr>), put_session (isoNow w) s1 st))"
  using assms by (simp add: updateFileReview_def saveSession_eq split: option.splits)

lemma completeSession_found:
  assumes "getSession st sid = Some s"
  shows "completeSession w sid st =
           (Some (s\<lparr>completed := True, updatedAt := isoNow w\<rparr>),
            put_session (isoNow w) (s\<lparr>completed := True\<rparr>) st)"
  using assms by (simp add: completeSession_def saveSession_eq)

lemma resetSessionTokenCount_found:
  assumes "getSession st sid = Some s"
  shows "resetSessionTokenCount w sid st =
           (Some (s\<lparr>currentSessionTokenCount := 0, updatedAt := isoNow w\<rparr>),
            put_session (isoNow w) (s\<lparr>currentSessionTokenCount := 0\<rparr>) st)"
  using assms by (simp add: resetSessionTokenCount_def saveSession_eq)

lemma resume_existing_Some:
  assumes "getSessionIdForProject st pr = Some sid" and "getSession st sid = Some s"
      and "\<not> completed s"
  shows "resume_existing w pr st =
           Some (Resumed (s\<lparr>currentSessionTokenCount := 0, updatedAt := isoNow w\<rparr>),
                 put_session (isoNow w) (s\<lparr>currentSessionTokenCount := 0\<rparr>) st)"
  using assms by (simp add: resume_existing_def resetSessionTokenCount_found)

lemma resume_existing_cases:
  "resume_existing w pr st = None \<or>
   (\<exists>sid s. getSessionIdForProject st pr = Some sid \<and> getSession st sid = Some s \<and> \<not> completed s \<and>
      resume_existing w pr st =
        Some (Resumed (s\<lparr>currentSessionTokenCount := 0, updatedAt := isoNow w\<rparr>),
              put_session (isoNow w) (s\<lparr>currentSessionTokenCount := 0\<rparr>) st))"
  by (auto simp: resume_existing_def resetSessionTokenCount_found split: option.splits)

lemma createSession_eq:
  "createSession w pf fls lim st =
     (fresh_session w pf fls lim,
      saveProjectSessionIndex pf (id_session (fresh_session w pf fls lim))
        (put_session (isoNow w) (fresh_session w pf fls lim) st))"
  by (simp add: createSession_def saveSession_eq fresh_session_def Let_def)

lemma sessions_saveProjectSessionIndex [simp]:
  "sessions (saveProjectSessionIndex pr sid st) = sessions st"
  by (simp add: saveProjectSessionIndex_def)

lemma create_new_cases:
  "create_new w pr mode glob fls lim st = (r, st') \<Longrightarrow>
     st' = st \<or>
     (\<exists>l. l \<noteq> [] \<and> r = Created (fresh_session w pr l lim) \<and>
          st' = saveProjectSessionIndex pr (id_session (fresh_session w pr l lim))
                  (put_session (isoNow w) (fresh_session w pr l lim) st))"
  by (auto simp: create_new_def createSession_eq split: option.splits list.splits sum.splits
      if_splits)

lemma start_review_session_cases:
  "start_review_session w pr mode glob fls la fa st = (r, st') \<Longrightarrow>
     st' = st \<or>
     (\<exists>sid s. getSessionIdForProject st pr = Some sid \<and> getSession st sid = Some s \<and>
        \<not> completed s \<and> st' = put_session (isoNow w) (s\<lparr>currentSessionTokenCount := 0\<rparr>) st) \<or>
     (\<exists>l lim. l \<noteq> [] \<and> r = Created (fresh_session w pr l lim) \<and>
          st' = saveProjectSessionIndex pr (id_session (fresh_session w pr l lim))
                  (put_session (isoNow w) (fresh_session w pr l lim) st))"
  using resume_existing_cases [of w pr st]
  by (auto simp: start_review_session_def Let_def split: option.splits if_splits
      dest!: create_new_cases)

lemma submit_file_review_cases:
  "submit_file_review enc w key filePath review pr st = (r, st') \<Longrightarrow>
     st' = st \<or>
     (\<exists>sid s i fc s1. getSession st sid = Some s \<and>
        findIndex (\<lambda>f. path f = filePath) (files s) = Some i \<and>
        reviewFileAt enc s i fc True review None = Some s1 \<and>
        st' = put_session (isoNow w) s1 st)"
  by (auto simp: submit_file_review_def Let_def updateFileReview_def saveSession_eq
      split: option.splits) blast+

lemma submissionCost_returns:
  assumes "enc fc = Some a" and "enc fb = Some b"
  shows "submissionCost enc fc fb None = Some (int a + int b)"
  using assms by (simp add: submissionCost_def countToken_def)

lemma submit_file_review_found:
  assumes "resolveKey st key = Some sid" and "getSession st sid = Some s"
      and "findIndex (\<lambda>f. path f = filePath) (files s) = Some i"
      and "submissionCost enc (fileContentRead w key pr filePath) review None = Some c"
  shows "submit_file_review enc w key filePath review pr st =
           (ReviewSubmitted ((reviewedAt s i True review None c)\<lparr>updatedAt := isoNow w\<rparr>)
              (tokenLimit s < currentSessionTokenCount s + c),
            put_session (isoNow w) (reviewedAt s i True review None c) st)"
  using assms
  by (simp add: submit_file_review_def Let_def updateFileReview_found fileContentRead_def
      reviewFileAt_eq)

lemma submit_file_review_thrown:
  assumes "resolveKey st key = Some sid" and "getSession st sid = Some s"
      and "findIndex (\<lambda>f. path f = filePath) (files s) = Some i"
      and "submissionCost enc (fileContentRead w key pr filePath) review None = None"
  shows "submit_file_review enc w key filePath review pr st = (ToolCallFailed, st)"
  using assms
  by (simp add: submit_file_review_def Let_def updateFileReview_found fileContentRead_def
      reviewFileAt_eq)

lemma complete_review_session_cases:
  "complete_review_session w key st = (r, st') \<Longrightarrow>
     st' = st \<or>
     (\<exists>sid s. getSession st sid = Some s \<and> pendingCount s = 0 \<and>
        st' = put_session (isoNow w) (s\<lparr>completed := True\<rparr>) st)"
  by (auto simp: complete_review_session_def completeSession_found split: option.splits if_splits)

lemma complete_review_session_pending:
  assumes "resolveKey st key = Some sid" and "getSession st sid = Some s"
      and "0 < pendingCount s"
  shows "complete_review_session w key st =
           (PendingFiles (length (filter reviewed (files s))) (pendingCount s) (length (files s)), st)"
  using assms by (simp add: complete_review_session_def)

lemma complete_review_session_done:
  assumes "resolveKey st key = Some sid" and "getSession st sid = Some s"
      and "pendingCount s = 0"
  shows "complete_review_session w key st =
           (SessionCompleted (s\<lparr>completed := True, updatedAt := isoNow w\<rparr>),
            put_session (isoNow w) (s\<lparr>completed := True\<rparr>) st)"
  using assms by (simp add: complete_review_session_def completeSession_found)

lemma tokenCount_or_0_eq:
  "tokenCount_or_0 f = (case tokenCount f of None \<Rightarrow> 0 | Some n \<Rightarrow> n)"
  by (simp add: tokenCount_or_0_def split: option.splits)

lemma foldl_plus_sum_list:
  "foldl (\<lambda>sum file. sum + g file) a fls = a + sum_list (map g fls)" for a :: int
  by (induction fls arbitrary: a) simp_all

lemma sumTokenCount_sum_list:
  "sumTokenCount fls = (\<Sum>f\<leftarrow>fls. case tokenCount f of None \<Rightarrow> 0 | Some n \<Rightarrow> n)"
proof -
  have "sumTokenCount fls = sum_list (map tokenCount_or_0 fls)"
    by (simp add: sumTokenCount_def foldl_plus_sum_list)
  also have "map tokenCount_or_0 fls = map (\<lambda>f. case tokenCount f of None \<Rightarrow> 0 | Some n \<Rightarrow> n) fls"
    by (simp add: tokenCount_or_0_eq)
  finally show ?thesis .
qed

lemma sumTokenCount_new: "sumTokenCount (map newReviewFile l) = 0"
  by (induction l) (simp_all add: sumTokenCount_sum_list newReviewFile_def)

lemma sumTokenCount_update:
  assumes "i < length fls"
  shows "sumTokenCount (fls[i := f]) = sumTokenCount fls - tokenCount_or_0 (fls ! i) + tokenCount_or_0 f"
  using assms
proof (induction fls arbitrary: i)
  case Nil
  then show ?case by simp
next
  case (Cons a fls)
  have c: "sumTokenCount (x # xs) = tokenCount_or_0 x + sumTokenCount xs" for x xs
    by (simp add: sumTokenCount_def foldl_plus_sum_list)
  show ?case
  proof (cases i)
    case 0
    then show ?thesis by (simp add: c)
  next
    case (Suc n)
    with Cons.prems have "n < length fls" by simp
    from Cons.IH [OF this] Suc show ?thesis by (simp add: c)
  qed
qed

lemma pendingCount_0_iff: "pendingCount s = 0 \<longleftrightarrow> (\<forall>f\<in>set (files s). reviewed f)"
  by (auto simp: pendingCount_def filter_empty_conv)

lemma pendingCount_pos_iff: "0 < pendingCount s \<longleftrightarrow> (\<exists>f\<in>set (files s). \<not> reviewed f)"
  using pendingCount_0_iff [of s] by auto

section \<open>Invariants of runs\<close>

text \<open>
  Every call leaves the store as it is, or writes one session: an existing one after a
  review, a reset or a completion, or a new one.
\<close>

lemma step_cases:
  "step enc st c = st \<or>
   (\<exists>ts sid s i fc fb p s1. getSession st sid = Some s \<and>
      findIndex (\<lambda>f. path f = p) (files s) = Some i \<and>
      reviewFileAt enc s i fc True fb None = Some s1 \<and>
      step enc st c = put_session ts s1 st) \<or>
   (\<exists>ts sid s. getSession st sid = Some s \<and> \<not> completed s \<and>
      step enc st c = put_session ts (s\<lparr>currentSessionTokenCount := 0\<rparr>) st) \<or>
   (\<exists>ts sid s. getSession st sid = Some s \<and> pendingCount s = 0 \<and>
      step enc st c = put_session ts (s\<lparr>completed := True\<rparr>) st) \<or>
   (\<exists>w pr l lim. l \<noteq> [] \<and>
      step enc st c = saveProjectSessionIndex pr (id_session (fresh_session w pr l lim))
                        (put_session (isoNow w) (fresh_session w pr l lim) st))"
proof (cases c)
  case (StartReviewSession w pr mode glob fls la fa)
  obtain r st' where e: "start_review_session w pr mode glob fls la fa st = (r, st')"
    by (cases "start_review_session w pr mode glob fls la fa st")
  from start_review_session_cases [OF e] show ?thesis
    unfolding StartReviewSession step.simps e snd_conv by blast
next
  case (GetNextReviewFile key)
  then show ?thesis by simp
next
  case (SubmitFileReview w key filePath review pr)
  obtain r st' where e: "submit_file_review enc w key filePath review pr st = (r, st')"
    by (cases "submit_file_review enc w key filePath review pr st")
  from submit_file_review_cases [OF e] show ?thesis
    unfolding SubmitFileReview step.simps e snd_conv by blast
next
  case (CompleteReviewSession w key)
  obtain r st' where e: "complete_review_session w key st = (r, st')"
    by (cases "complete_review_session w key st")
  from complete_review_session_cases [OF e] show ?thesis
    unfolding CompleteReviewSession step.simps e snd_conv by blast
qed

lemma run_snoc: "run enc (cs @ [c]) = step enc (run enc cs) c"
  by (simp add: run_def)

lemma run_invariant:
  assumes fresh: "\<And>w pr l lim. l \<noteq> [] \<Longrightarrow> P (fresh_session w pr l lim)"
      and stamp: "\<And>s ts. P s \<Longrightarrow> P (s\<lparr>updatedAt := ts\<rparr>)"
      and review: "\<And>s i fc fb p s1. P s \<Longrightarrow> findIndex (\<lambda>f. path f = p) (files s) = Some i
                     \<Longrightarrow> reviewFileAt enc s i fc True fb None = Some s1 \<Longrightarrow> P s1"
      and reset: "\<And>s. P s \<Longrightarrow> \<not> completed s \<Longrightarrow> P (s\<lparr>currentSessionTokenCount := 0\<rparr>)"
      and compl: "\<And>s. P s \<Longrightarrow> pendingCount s = 0 \<Longrightarrow> P (s\<lparr>completed := True\<rparr>)"
  shows "sessions (run enc cs) k = Some s \<Longrightarrow> id_session s = k \<and> P s"
proof (induction cs arbitrary: k s rule: rev_induct)
  case Nil
  then show ?case by (simp add: run_def empty_store_def)
next
  case (snoc c cs)
  let ?st = "run enc cs"
  have IH: "\<And>k s. sessions ?st k = Some s \<Longrightarrow> id_session s = k \<and> P s"
    by (rule snoc.IH)
  have put: "id_session s = k \<and> P s"
    if "sessions (put_session ts s0 ?st) k = Some s" and "P s0" for ts s0
    using that IH [of k s] stamp [of s0 ts]
    by (auto simp: sessions_put_session split: if_splits)
  from snoc.prems have s: "sessions (step enc ?st c) k = Some s"
    by (simp add: run_snoc)
  from step_cases [of enc ?st c] show ?case
  proof (elim disjE exE conjE)
    assume "step enc ?st c = ?st"
    with s IH show ?thesis by simp
  next
    fix ts sid s0 i fc fb p s1
    assume a: "getSession ?st sid = Some s0" "findIndex (\<lambda>f. path f = p) (files s0) = Some i"
      "step enc ?st c = put_session ts s1 ?st"
      and r: "reviewFileAt enc s0 i fc True fb None = Some s1"
    from a(1) IH have "P s0" by (simp add: getSession_def)
    then have "P s1" using a(2) r by (rule review)
    moreover from s a(3) have "sessions (step enc ?st c) k = Some s" by simp
    ultimately show ?thesis unfolding a(3) by (rule put [rotated])
  next
    fix ts sid s0
    assume a: "getSession ?st sid = Some s0" "\<not> completed s0"
      "step enc ?st c = put_session ts (s0\<lparr>currentSessionTokenCount := 0\<rparr>) ?st"
    from a(1) IH have "P s0" by (simp add: getSession_def)
    then have "P (s0\<lparr>currentSessionTokenCount := 0\<rparr>)" using a(2) by (rule reset)
    moreover from s a(3) have "sessions (step enc ?st c) k = Some s" by simp
    ultimately show ?thesis unfolding a(3) by (rule put [rotated])
  next
    fix ts sid s0
    assume a: "getSession ?st sid = Some s0" "pendingCount s0 = 0"
      "step enc ?st c = put_session ts (s0\<lparr>completed := True\<rparr>) ?st"
    from a(1) IH have "P s0" by (simp add: getSession_def)
    then have "P (s0\<lparr>completed := True\<rparr>)" using a(2) by (rule compl)
    moreover from s a(3) have "sessions (step enc ?st c) k = Some s" by simp
    ultimately show ?thesis unfolding a(3) by (rule put [rotated])
  next
    fix w pr l lim
    assume a: "l \<noteq> ([]::string list)"
      "step enc ?st c = saveProjectSessionIndex pr (id_session (fresh_session w pr l lim))
                        (put_session (isoNow w) (fresh_session w pr l lim) ?st)"
    from a(1) have "P (fresh_session w pr l lim)" by (rule fresh)
    moreover from s a(2) have "sessions (put_session (isoNow w) (fresh_session w pr l lim) ?st) k = Some s"
      by simp
    ultimately show ?thesis by (rule put [rotated])
  qed
qed

lemma run_id_session:
  assumes "sessions (run enc cs) k = Some s"
  shows "id_session s = k"
  using run_invariant [where P = "\<lambda>s. True", OF _ _ _ _ _ assms] by simp

lemma run_getSession_id:
  assumes "getSession (run enc cs) sid = Some s"
  shows "id_session s = sid"
  using assms run_id_session [of enc cs sid s] by (simp add: getSession_def)

lemma run_total:
  assumes "sessions (run enc cs) k = Some s"
  shows "totalTokenCount s = sumTokenCount (files s)"
proof -
  have "id_session s = k \<and> totalTokenCount s = sumTokenCount (files s)"
  proof (rule run_invariant [where P = "\<lambda>s. totalTokenCount s = sumTokenCount (files s)", OF _ _ _ _ _ assms])
    show "totalTokenCount (fresh_session w pr l lim) = sumTokenCount (files (fresh_session w pr l lim))"
      for w pr l lim
      by (simp add: fresh_session_def sumTokenCount_new)
  qed (auto elim!: reviewFileAt_SomeD)
  then show ?thesis ..
qed

lemma run_completed:
  assumes "sessions (run enc cs) k = Some s" and "completed s"
  shows "pendingCount s = 0"
proof -
  have "id_session s = k \<and> (completed s \<longrightarrow> pendingCount s = 0)"
  proof (rule run_invariant [where P = "\<lambda>s. completed s \<longrightarrow> pendingCount s = 0", OF _ _ _ _ _ assms(1)])
    fix s s1 :: ReviewSession and i fc fb p
    assume P: "completed s \<longrightarrow> pendingCount s = 0"
      and r: "reviewFileAt enc s i fc True fb None = Some s1"
    from r obtain c where s1: "s1 = reviewedAt s i True fb None c"
      by (rule reviewFileAt_SomeD)
    show "completed s1 \<longrightarrow> pendingCount s1 = 0"
    proof
      assume "completed s1"
      then have "completed s" by (simp add: s1)
      with P have "\<forall>f\<in>set (files s). reviewed f" by (simp add: pendingCount_0_iff)
      then have "\<forall>f\<in>set ((files s)[i := reviewedEntry (files s ! i) True fb None c]). reviewed f"
        using set_update_subset_insert [of "files s" i] by fastforce
      then show "pendingCount s1 = 0"
        by (simp add: pendingCount_0_iff s1 files_reviewedAt)
    qed
  qed (simp_all add: fresh_session_def pendingCount_def)
  with assms(2) show ?thesis by simp
qed

lemma later_duplicates_pending_review:
  assumes P: "later_duplicates_pending s"
      and i: "findIndex (\<lambda>f. path f = p) (files s) = Some i"
  shows "later_duplicates_pending (reviewedAt s i rv fb ar c)"
proof -
  let ?fs = "(files s)[i := reviewedEntry (files s ! i) rv fb ar c]"
  from findIndex_Some [OF i] have il: "i < length (files s)" and ip: "path (files s ! i) = p"
    and first: "\<forall>j<i. path (files s ! j) \<noteq> p" by auto
  have paths: "path (?fs ! j) = path (files s ! j)" if "j < length (files s)" for j
    using that by (cases "j = i") simp_all
  have "\<not> reviewed (?fs ! j)"
    if j: "j < length (files s)" and ex: "\<exists>i'<j. path (?fs ! i') = path (?fs ! j)" for j
  proof (cases "j = i")
    case True
    from ex obtain i' where "i' < j" "path (?fs ! i') = path (?fs ! j)" by blast
    with True il have "i' < i" "path (files s ! i') = path (files s ! i)"
      by (simp_all add: paths)
    with first ip show ?thesis by auto
  next
    case False
    from ex obtain i' where i': "i' < j" "path (?fs ! i') = path (?fs ! j)" by blast
    with j have "path (files s ! i') = path (files s ! j)" by (simp add: paths)
    with P j i'(1) have "\<not> reviewed (files s ! j)"
      unfolding later_duplicates_pending_def by blast
    with False show ?thesis by simp
  qed
  then show ?thesis
    by (simp add: later_duplicates_pending_def files_reviewedAt)
qed

lemma run_later_duplicates:
  assumes "sessions (run enc cs) k = Some s"
  shows "later_duplicates_pending s"
proof -
  have "id_session s = k \<and> later_duplicates_pending s"
  proof (rule run_invariant [where P = later_duplicates_pending, OF _ _ _ _ _ assms])
    show "later_duplicates_pending s1"
      if "later_duplicates_pending s" "findIndex (\<lambda>f. path f = p) (files s) = Some i"
        "reviewFileAt enc s i fc True fb None = Some s1"
      for s i fc fb p s1
      using that by (auto elim!: reviewFileAt_SomeD intro: later_duplicates_pending_review)
  qed (simp_all add: later_duplicates_pending_def fresh_session_def newReviewFile_def)
  then show ?thesis ..
qed

lemma duplicate_pending:
  assumes "later_duplicates_pending s" and "\<not> distinct (map path (files s))"
  shows "0 < pendingCount s"
proof -
  from assms(2) obtain i j where ij: "i < length (files s)" "j < length (files s)" "i \<noteq> j"
    "path (files s ! i) = path (files s ! j)"
    by (auto simp: distinct_conv_nth)
  define a where "a = min i j"
  define b where "b = max i j"
  from ij have ab: "a < b" "b < length (files s)" "path (files s ! a) = path (files s ! b)"
    unfolding a_def b_def by (auto simp: min_def max_def)
  with assms(1) have "\<not> reviewed (files s ! b)"
    unfolding later_duplicates_pending_def by blast
  with ab(2) have "\<exists>f\<in>set (files s). \<not> reviewed f"
    using nth_mem by blast
  then show ?thesis by (simp add: pendingCount_pos_iff)
qed

lemma submit_on_run:
  assumes "resolveKey (run enc cs) key = Some sid" and "getSession (run enc cs) sid = Some s"
      and "findIndex (\<lambda>f. path f = filePath) (files s) = Some i"
      and "enc (fileContentRead w key pr filePath) = Some a" and "enc review = Some b"
  shows "\<exists>s' st' x.
           submit_file_review enc w key filePath review pr (run enc cs) = (ReviewSubmitted s' x, st') \<and>
           getSession st' sid = Some s' \<and>
           s' = (reviewedAt s i True review None (int a + int b))\<lparr>updatedAt := isoNow w\<rparr>"
proof -
  have "id_session s = sid"
    using assms(2) by (rule run_getSession_id)
  then show ?thesis
    by (simp add: submit_file_review_found [OF assms(1-3) submissionCost_returns [OF assms(4,5)]]
        getSession_put_session)
qed

text \<open>
  The paths of a session and their order are those of the list it was created from: no
  call changes them.
\<close>

lemma paths_fresh_session: "map path (files (fresh_session w pr l lim)) = l"
  by (simp add: fresh_session_def newReviewFile_def comp_def)

lemma step_keeps_paths:
  assumes "sessions (run enc cs) k = Some s"
      and "sessions (step enc (run enc cs) c) k = Some s'"
  shows "map path (files s') = map path (files s) \<or>
         (\<exists>w pr l lim. l \<noteq> [] \<and> s' = (fresh_session w pr l lim)\<lparr>updatedAt := isoNow w\<rparr>)"
proof -
  let ?st = "run enc cs"
  have same: "map path (files s') = map path (files s)"
    if g: "getSession ?st sid = Some s0" and e: "step enc ?st c = put_session ts s1 ?st"
      and i: "id_session s1 = id_session s0" and p: "map path (files s1) = map path (files s0)"
    for sid s0 ts s1
  proof -
    from g have "id_session s0 = sid" by (rule run_getSession_id)
    with assms g e i p show ?thesis
      by (auto simp: sessions_put_session getSession_def split: if_splits)
  qed
  from step_cases [of enc ?st c] show ?thesis
  proof (elim disjE exE conjE)
    assume "step enc ?st c = ?st"
    with assms show ?thesis by simp
  next
    fix ts sid s0 i fc fb p s1
    assume a: "getSession ?st sid = Some s0" "findIndex (\<lambda>f. path f = p) (files s0) = Some i"
      "step enc ?st c = put_session ts s1 ?st"
      and r: "reviewFileAt enc s0 i fc True fb None = Some s1"
    from r obtain c' where s1: "s1 = reviewedAt s0 i True fb None c'"
      by (rule reviewFileAt_SomeD)
    from findIndex_Some [OF a(2)] have "i < length (files s0)" by simp
    then have "map path (files s1) = map path (files s0)"
      by (simp add: s1 files_reviewedAt map_update list_update_same_conv)
    moreover have "id_session s1 = id_session s0"
      by (simp add: s1)
    ultimately show ?thesis using a(1,3) by (simp add: same)
  next
    fix ts sid s0
    assume "getSession ?st sid = Some s0"
      "step enc ?st c = put_session ts (s0\<lparr>currentSessionTokenCount := 0\<rparr>) ?st"
    then show ?thesis by (simp add: same)
  next
    fix ts sid s0
    assume "getSession ?st sid = Some s0"
      "step enc ?st c = put_session ts (s0\<lparr>completed := True\<rparr>) ?st"
    then show ?thesis by (simp add: same)
  next
    fix w pr l lim
    assume a: "l \<noteq> ([]::string list)"
      "step enc ?st c = saveProjectSessionIndex pr (id_session (fresh_session w pr l lim))
                        (put_session (isoNow w) (fresh_session w pr l lim) ?st)"
    show ?thesis
    proof (cases "k = id_session (fresh_session w pr l lim)")
      case True
      with assms(2) a have "s' = (fresh_session w pr l lim)\<lparr>updatedAt := isoNow w\<rparr>"
        by (simp add: sessions_put_session)
      with a(1) show ?thesis by blast
    next
      case False
      with assms a show ?thesis by (simp add: sessions_put_session)
    qed
  qed
qed

section \<open>The example runs\<close>

lemma getSession_store_of: "getSession (store_of s) (id_session s) = Some s"
  by (simp add: store_of_def getSession_def)

lemma getSessionIdForProject_store_of:
  "id_session s \<noteq> [] \<Longrightarrow> getSessionIdForProject (store_of s) (projectFolder s) = Some (id_session s)"
  by (simp add: store_of_def getSessionIdForProject_def)

lemma resolveKey_store_of:
  "id_session s \<noteq> [] \<Longrightarrow> projectFolder s \<noteq> id_session s
     \<Longrightarrow> resolveKey (store_of s) (projectFolder s) = Some (id_session s)"
  by (simp add: resolveKey_def getSessionIdForProject_def getSession_def store_of_def)

lemma example_id_simps: "example_id \<noteq> []" "''/repo'' \<noteq> example_id"
  by (simp_all add: example_id_def)

lemma store_of_resolves:
  assumes "id_session s = example_id" and "projectFolder s = ''/repo''"
  shows "resolveKey (store_of s) ''/repo'' = Some example_id"
    and "getSession (store_of s) example_id = Some s"
  using resolveKey_store_of [of s] getSession_store_of [of s] assms
  by (simp_all add: example_id_simps)

lemma session_ab_simps:
  "id_session session_ab = example_id" "projectFolder session_ab = ''/repo''"
  "files session_ab = [newReviewFile ''a.ts'', newReviewFile ''b.ts'']"
  "tokenLimit session_ab = 100" "completed session_ab = False"
  "currentSessionTokenCount session_ab = 0" "totalTokenCount session_ab = 0"
  by (simp_all add: session_ab_def example_id_def)

lemma isoNow_world_at: "isoNow (world_at ts) = ts"
  by (simp add: world_at_def)

lemma fileContentRead_world_at: "fileContentRead (world_at ts) key pr p = []"
  by (simp add: fileContentRead_def world_at_def)

lemma submissionCost_char_tokenizer:
  "submissionCost char_tokenizer [] review None = Some (int (length review))"
  by (simp add: submissionCost_def countToken_def char_tokenizer_def)

lemma step_submit_world_at:
  assumes "resolveKey st key = Some sid" and "getSession st sid = Some s"
      and "findIndex (\<lambda>f. path f = p) (files s) = Some i"
  shows "step char_tokenizer st (SubmitFileReview (world_at ts) key p review None) =
           put_session ts (reviewedAt s i True review None (int (length review))) st"
proof -
  have c: "submissionCost char_tokenizer (fileContentRead (world_at ts) key None p) review None
             = Some (int (length review))"
    by (simp add: fileContentRead_world_at submissionCost_char_tokenizer)
  show ?thesis
    by (simp add: submit_file_review_found [OF assms c] isoNow_world_at)
qed

lemma run_start_world_at:
  "run enc [StartReviewSession (world_at ''t1'') ''/repo'' Glob None (Some (f # fs)) (Some 100) None]
     = store_of (fresh_session (world_at ''t1'') ''/repo'' (f # fs) 100)"
proof -
  have "resume_existing (world_at ''t1'') ''/repo'' empty_store = None"
    by (simp add: resume_existing_def getSessionIdForProject_def empty_store_def)
  then have "start_review_session (world_at ''t1'') ''/repo'' Glob None
          (Some (f # fs)) (Some 100) None empty_store =
        (Created (fresh_session (world_at ''t1'') ''/repo'' (f # fs) 100),
         saveProjectSessionIndex ''/repo''
           (id_session (fresh_session (world_at ''t1'') ''/repo'' (f # fs) 100))
           (put_session (isoNow (world_at ''t1''))
              (fresh_session (world_at ''t1'') ''/repo'' (f # fs) 100) empty_store))"
    by (simp add: start_review_session_def create_new_def createSession_eq)
  then show ?thesis
    by (simp add: run_def saveProjectSessionIndex_def put_session_def empty_store_def
        store_of_def fresh_session_def world_at_def)
qed

lemma run1: "run enc [start_ab] = store_of session_ab"
  by (simp add: start_ab_def run_start_world_at)
     (simp add: fresh_session_def world_at_def session_ab_def)

lemma run2: "run char_tokenizer [start_ab, submit_a] = store_of session_a"
proof -
  have r: "resolveKey (store_of session_ab) ''/repo'' = Some example_id"
    using resolveKey_store_of [of session_ab] by (simp add: session_ab_simps example_id_simps)
  have g: "getSession (store_of session_ab) example_id = Some session_ab"
    using getSession_store_of [of session_ab] by (simp add: session_ab_simps)
  have i: "findIndex (\<lambda>f. path f = ''a.ts'') (files session_ab) = Some 0"
    by (simp add: session_ab_simps newReviewFile_def)
  have "run char_tokenizer [start_ab, submit_a] = step char_tokenizer (run char_tokenizer [start_ab]) submit_a"
    using run_snoc [of char_tokenizer "[start_ab]" submit_a] by simp
  also have "\<dots> = put_session ''t2''
        (reviewedAt session_ab 0 True ''looks good'' None (int (length ''looks good''))) (store_of session_ab)"
    using step_submit_world_at [OF r g i] by (simp add: run1 submit_a_def)
  also have "\<dots> = store_of session_a"
    by (simp add: put_session_def store_of_def reviewedAt_def reviewedEntry_def truthy_def
        sumTokenCount_sum_list session_a_def session_ab_def newReviewFile_def file_a_def)
  finally show ?thesis .
qed

lemma session_a_simps:
  "id_session session_a = example_id" "projectFolder session_a = ''/repo''"
  "files session_a = [file_a, newReviewFile ''b.ts'']"
  "tokenLimit session_a = 100" "completed session_a = False"
  "currentSessionTokenCount session_a = 10" "totalTokenCount session_a = 10"
  by (simp_all add: session_a_def session_ab_simps)

lemma run3: "run char_tokenizer [start_ab, submit_a, submit_b] = store_of session_reviewed"
proof -
  have r: "resolveKey (store_of session_a) ''/repo'' = Some example_id"
    using resolveKey_store_of [of session_a] by (simp add: session_a_simps example_id_simps)
  have g: "getSession (store_of session_a) example_id = Some session_a"
    using getSession_store_of [of session_a] by (simp add: session_a_simps)
  have i: "findIndex (\<lambda>f. path f = ''b.ts'') (files session_a) = Some 1"
    by (simp add: session_a_simps newReviewFile_def file_a_def)
  have "run char_tokenizer [start_ab, submit_a, submit_b]
          = step char_tokenizer (run char_tokenizer [start_ab, submit_a]) submit_b"
    using run_snoc [of char_tokenizer "[start_ab, submit_a]" submit_b] by simp
  also have "\<dots> = put_session ''t3''
        (reviewedAt session_a 1 True ''ok'' None (int (length ''ok''))) (store_of session_a)"
    using step_submit_world_at [OF r g i] by (simp add: run2 submit_b_def)
  also have "\<dots> = store_of session_reviewed"
    by (simp add: put_session_def store_of_def reviewedAt_def reviewedEntry_def truthy_def
        sumTokenCount_sum_list session_reviewed_def session_a_def session_ab_def
        newReviewFile_def file_a_def file_b_def)
  finally show ?thesis .
qed

lemma session_reviewed_simps:
  "id_session session_reviewed = example_id" "projectFolder session_reviewed = ''/repo''"
  "files session_reviewed = [file_a, file_b]"
  "tokenLimit session_reviewed = 100" "completed session_reviewed = False"
  "currentSessionTokenCount session_reviewed = 12" "totalTokenCount session_reviewed = 12"
  by (simp_all add: session_reviewed_def session_ab_simps)

lemma run4: "run char_tokenizer [start_ab, submit_a, submit_b, complete_ab] = store_of session_done"
proof -
  have r: "resolveKey (store_of session_reviewed) ''/repo'' = Some example_id"
    using resolveKey_store_of [of session_reviewed]
    by (simp add: session_reviewed_simps example_id_simps)
  have g: "getSession (store_of session_reviewed) example_id = Some session_reviewed"
    using getSession_store_of [of session_reviewed] by (simp add: session_reviewed_simps)
  have p: "pendingCount session_reviewed = 0"
    by (simp add: pendingCount_def session_reviewed_simps file_a_def file_b_def)
  have "run char_tokenizer [start_ab, submit_a, submit_b, complete_ab]
          = step char_tokenizer (run char_tokenizer [start_ab, submit_a, submit_b]) complete_ab"
    using run_snoc [of char_tokenizer "[start_ab, submit_a, submit_b]" complete_ab] by simp
  also have "\<dots> = put_session ''t4'' (session_reviewed\<lparr>completed := True\<rparr>)
                     (store_of session_reviewed)"
    by (simp add: run3 complete_ab_def complete_review_session_done [OF r g p] isoNow_world_at)
  also have "\<dots> = store_of session_done"
    by (simp add: put_session_def store_of_def session_done_def session_reviewed_def
        session_ab_def)
  finally show ?thesis .
qed

lemma session_done_simps:
  "id_session session_done = example_id" "projectFolder session_done = ''/repo''"
  "files session_done = [file_a, file_b]"
  "tokenLimit session_done = 100" "completed session_done = True"
  "updatedAt session_done = ''t4''"
  by (simp_all add: session_done_def session_reviewed_simps)

lemma run_dup1: "run enc [start_dup] = store_of session_dup"
  by (simp add: start_dup_def run_start_world_at)
     (simp add: fresh_session_def world_at_def session_dup_def session_ab_def)

lemma session_dup_simps:
  "id_session session_dup = example_id" "projectFolder session_dup = ''/repo''"
  "files session_dup = [newReviewFile ''a.ts'', newReviewFile ''a.ts'']"
  by (simp_all add: session_dup_def session_ab_simps)

lemma run_dup2: "run char_tokenizer [start_dup, submit_a] = store_of session_dup_a"
proof -
  have r: "resolveKey (store_of session_dup) ''/repo'' = Some example_id"
    using resolveKey_store_of [of session_dup] by (simp add: session_dup_simps example_id_simps)
  have g: "getSession (store_of session_dup) example_id = Some session_dup"
    using getSession_store_of [of session_dup] by (simp add: session_dup_simps)
  have i: "findIndex (\<lambda>f. path f = ''a.ts'') (files session_dup) = Some 0"
    by (simp add: session_dup_simps newReviewFile_def)
  have "run char_tokenizer [start_dup, submit_a] = step char_tokenizer (run char_tokenizer [start_dup]) submit_a"
    using run_snoc [of char_tokenizer "[start_dup]" submit_a] by simp
  also have "\<dots> = put_session ''t2''
        (reviewedAt session_dup 0 True ''looks good'' None (int (length ''looks good''))) (store_of session_dup)"
    using step_submit_world_at [OF r g i] by (simp add: run_dup1 submit_a_def)
  also have "\<dots> = store_of session_dup_a"
    by (simp add: put_session_def store_of_def reviewedAt_def reviewedEntry_def truthy_def
        sumTokenCount_sum_list session_dup_a_def
        session_dup_def session_ab_def newReviewFile_def file_a_def)
  finally show ?thesis .
qed

lemma session_dup_a_simps:
  "id_session session_dup_a = example_id" "projectFolder session_dup_a = ''/repo''"
  "files session_dup_a = [file_a, newReviewFile ''a.ts'']" "completed session_dup_a = False"
  by (simp_all add: session_dup_a_def session_ab_simps)

lemma run2_again: "run char_tokenizer [start_ab, submit_a, resubmit_a] = store_of session_a_again"
proof -
  have r: "resolveKey (store_of session_a) ''/repo'' = Some example_id"
    using resolveKey_store_of [of session_a] by (simp add: session_a_simps example_id_simps)
  have g: "getSession (store_of session_a) example_id = Some session_a"
    using getSession_store_of [of session_a] by (simp add: session_a_simps)
  have i: "findIndex (\<lambda>f. path f = ''a.ts'') (files session_a) = Some 0"
    by (simp add: session_a_simps file_a_def)
  have "run char_tokenizer [start_ab, submit_a, resubmit_a]
          = step char_tokenizer (run char_tokenizer [start_ab, submit_a]) resubmit_a"
    using run_snoc [of char_tokenizer "[start_ab, submit_a]" resubmit_a] by simp
  also have "\<dots> = put_session ''t3''
        (reviewedAt session_a 0 True [] None 0) (store_of session_a)"
    using step_submit_world_at [OF r g i] by (simp add: run2 resubmit_a_def)
  also have "\<dots> = store_of session_a_again"
    by (simp add: put_session_def store_of_def reviewedAt_def reviewedEntry_def truthy_def
        sumTokenCount_sum_list session_a_again_def
        session_a_def session_ab_def newReviewFile_def file_a_def)
  finally show ?thesis .
qed

lemma resolve_run1: "resolveKey (run enc [start_ab]) ''/repo'' = Some example_id"
  using resolveKey_store_of [of session_ab] by (simp add: run1 session_ab_simps example_id_simps)

lemma get_run1: "getSession (run enc [start_ab]) example_id = Some session_ab"
  using getSession_store_of [of session_ab] by (simp add: run1 session_ab_simps)

lemma resolve_run2: "resolveKey (run char_tokenizer [start_ab, submit_a]) ''/repo'' = Some example_id"
  using resolveKey_store_of [of session_a] by (simp add: run2 session_a_simps example_id_simps)

lemma get_run2: "getSession (run char_tokenizer [start_ab, submit_a]) example_id = Some session_a"
  using getSession_store_of [of session_a] by (simp add: run2 session_a_simps)

lemma resolve_run3:
  "resolveKey (run char_tokenizer [start_ab, submit_a, submit_b]) ''/repo'' = Some example_id"
  using resolveKey_store_of [of session_reviewed]
  by (simp add: run3 session_reviewed_simps example_id_simps)

lemma get_run3:
  "getSession (run char_tokenizer [start_ab, submit_a, submit_b]) example_id = Some session_reviewed"
  using getSession_store_of [of session_reviewed] by (simp add: run3 session_reviewed_simps)

lemma resolve_run4:
  "resolveKey (run char_tokenizer [start_ab, submit_a, submit_b, complete_ab]) ''/repo'' = Some example_id"
  using resolveKey_store_of [of session_done]
  by (simp add: run4 session_done_simps example_id_simps)

lemma get_run4:
  "getSession (run char_tokenizer [start_ab, submit_a, submit_b, complete_ab]) example_id
     = Some session_done"
  using getSession_store_of [of session_done] by (simp add: run4 session_done_simps)

section \<open>Properties of the review session engine\<close>

text \<open>
  Claim C2. For a key that resolves to a session: over the limit
  (\<^verbatim>\<open>currentSessionTokenCount > tokenLimit\<close>) get-next-review-file answers
  \<^verbatim>\<open>token_limit_exceeded\<close> with the number of pending files when some file is not
  reviewed, and \<^verbatim>\<open>token_limit_exceeded_all_reviewed\<close> when all are; within the limit it
  answers \<^verbatim>\<open>completed\<close> when every file is reviewed, and otherwise the path of the first
  entry of the list that is not reviewed, which is the entry \<^verbatim>\<open>getNextFileToReview\<close>
  returns.
\<close>

theorem get_next_review_file_status:
  assumes "resolveKey st key = Some sid" and "getSession st sid = Some s"
  shows "(tokenLimit s < currentSessionTokenCount s \<and> (\<exists>f\<in>set (files s). \<not> reviewed f) \<longrightarrow>
            get_next_review_file st key =
              TokenLimitExceeded (currentSessionTokenCount s) (tokenLimit s) (pendingCount s)) \<and>
         (tokenLimit s < currentSessionTokenCount s \<and> (\<forall>f\<in>set (files s). reviewed f) \<longrightarrow>
            get_next_review_file st key =
              TokenLimitExceededAllReviewed (currentSessionTokenCount s) (tokenLimit s)) \<and>
         (currentSessionTokenCount s \<le> tokenLimit s \<and> (\<forall>f\<in>set (files s). reviewed f) \<longrightarrow>
            get_next_review_file st key = AllFilesReviewed) \<and>
         (\<forall>i<length (files s).
            currentSessionTokenCount s \<le> tokenLimit s \<and> \<not> reviewed (files s ! i) \<and>
            (\<forall>j<i. reviewed (files s ! j)) \<longrightarrow>
            getNextFileToReview st sid = Some (files s ! i) \<and>
            get_next_review_file st key = NextFile (path (files s ! i)))"
proof (intro conjI allI impI)
  assume "tokenLimit s < currentSessionTokenCount s \<and> (\<exists>f\<in>set (files s). \<not> reviewed f)"
  then show "get_next_review_file st key =
      TokenLimitExceeded (currentSessionTokenCount s) (tokenLimit s) (pendingCount s)"
    using assms pendingCount_pos_iff [of s] by (simp add: get_next_review_file_def)
next
  assume "tokenLimit s < currentSessionTokenCount s \<and> (\<forall>f\<in>set (files s). reviewed f)"
  then show "get_next_review_file st key =
      TokenLimitExceededAllReviewed (currentSessionTokenCount s) (tokenLimit s)"
    using assms pendingCount_0_iff [of s] by (simp add: get_next_review_file_def)
next
  assume a: "currentSessionTokenCount s \<le> tokenLimit s \<and> (\<forall>f\<in>set (files s). reviewed f)"
  then have "find (\<lambda>file. \<not> reviewed file) (files s) = None"
    by (simp add: find_None_iff)
  with a show "get_next_review_file st key = AllFilesReviewed"
    using assms by (simp add: get_next_review_file_def getNextFileToReview_def)
next
  fix i
  assume i: "i < length (files s)"
    and a: "currentSessionTokenCount s \<le> tokenLimit s \<and> \<not> reviewed (files s ! i) \<and>
            (\<forall>j<i. reviewed (files s ! j))"
  then have f: "find (\<lambda>file. \<not> reviewed file) (files s) = Some (files s ! i)"
    by (auto simp: find_Some_iff)
  then show "getNextFileToReview st sid = Some (files s ! i)"
    using assms by (simp add: getNextFileToReview_def)
  from f a show "get_next_review_file st key = NextFile (path (files s ! i))"
    using assms by (simp add: get_next_review_file_def getNextFileToReview_def)
qed

theorem get_next_review_file_status_witness:
  "resolveKey (store_of session_ab) ''/repo'' = Some example_id \<and>
   getSession (store_of session_ab) example_id = Some session_ab \<and>
   getNextFileToReview (store_of session_ab) example_id = Some (newReviewFile ''a.ts'') \<and>
   get_next_review_file (store_of session_ab) ''/repo'' = NextFile ''a.ts'' \<and>
   get_next_review_file (store_of session_over) ''/repo'' = TokenLimitExceeded 150 100 2 \<and>
   get_next_review_file (store_of session_reviewed) ''/repo'' = AllFilesReviewed \<and>
   get_next_review_file (store_of session_reviewed_over) ''/repo''
     = TokenLimitExceededAllReviewed 110 100"
proof -
  have ab: "resolveKey (store_of session_ab) ''/repo'' = Some example_id"
    "getSession (store_of session_ab) example_id = Some session_ab"
    by (rule store_of_resolves; simp add: session_ab_simps)+
  have ov: "resolveKey (store_of session_over) ''/repo'' = Some example_id"
    "getSession (store_of session_over) example_id = Some session_over"
    by (rule store_of_resolves; simp add: session_over_def session_ab_simps)+
  have rv: "resolveKey (store_of session_reviewed) ''/repo'' = Some example_id"
    "getSession (store_of session_reviewed) example_id = Some session_reviewed"
    by (rule store_of_resolves; simp add: session_reviewed_simps)+
  have ro: "resolveKey (store_of session_reviewed_over) ''/repo'' = Some example_id"
    "getSession (store_of session_reviewed_over) example_id = Some session_reviewed_over"
    by (rule store_of_resolves; simp add: session_reviewed_over_def session_reviewed_simps)+
  have 1: "getNextFileToReview (store_of session_ab) example_id = Some (newReviewFile ''a.ts'') \<and>
      get_next_review_file (store_of session_ab) ''/repo'' = NextFile ''a.ts''"
    using get_next_review_file_status [OF ab, THEN conjunct2, THEN conjunct2, THEN conjunct2,
        rule_format, of 0]
    by (simp add: session_ab_simps newReviewFile_def)
  have 2: "get_next_review_file (store_of session_over) ''/repo'' = TokenLimitExceeded 150 100 2"
    using get_next_review_file_status [OF ov, THEN conjunct1]
    by (simp add: session_over_def session_ab_simps newReviewFile_def pendingCount_def)
  have 3: "get_next_review_file (store_of session_reviewed) ''/repo'' = AllFilesReviewed"
    using get_next_review_file_status [OF rv, THEN conjunct2, THEN conjunct2, THEN conjunct1]
    by (simp add: session_reviewed_simps file_a_def file_b_def)
  have 4: "get_next_review_file (store_of session_reviewed_over) ''/repo''
     = TokenLimitExceededAllReviewed 110 100"
    using get_next_review_file_status [OF ro, THEN conjunct2, THEN conjunct1]
    by (simp add: session_reviewed_over_def session_reviewed_simps file_a_def file_b_def)
  from ab 1 2 3 4 show ?thesis by simp
qed

text \<open>
  Claim C3. After every sequence of tool calls, every stored session has
  \<^verbatim>\<open>totalTokenCount\<close> equal to the sum of the \<^verbatim>\<open>tokenCount\<close> of its files, an absent
  \<^verbatim>\<open>tokenCount\<close> counting 0. A submission on which the tokenizer returns succeeds and
  sets the \<^verbatim>\<open>tokenCount\<close> of the file to the cost of this submission, and the new total
  is the old total minus the old \<^verbatim>\<open>tokenCount\<close> of the file plus the cost: a
  resubmission replaces, it does not add.
\<close>

theorem totalTokenCount_is_sum:
  "(\<forall>k s. sessions (run enc cs) k = Some s \<longrightarrow>
      totalTokenCount s = (\<Sum>f\<leftarrow>files s. case tokenCount f of None \<Rightarrow> 0 | Some n \<Rightarrow> n)) \<and>
   (\<forall>w key filePath review pr sid s i a b.
      resolveKey (run enc cs) key = Some sid \<and> getSession (run enc cs) sid = Some s \<and>
      findIndex (\<lambda>f. path f = filePath) (files s) = Some i \<and>
      enc (fileContentRead w key pr filePath) = Some a \<and> enc review = Some b \<longrightarrow>
      (\<exists>s' st' x.
         submit_file_review enc w key filePath review pr (run enc cs) = (ReviewSubmitted s' x, st') \<and>
         getSession st' sid = Some s' \<and>
         tokenCount (files s' ! i) = Some (int a + int b) \<and>
         totalTokenCount s' = (\<Sum>f\<leftarrow>files s'. case tokenCount f of None \<Rightarrow> 0 | Some n \<Rightarrow> n) \<and>
         totalTokenCount s' =
           totalTokenCount s - (case tokenCount (files s ! i) of None \<Rightarrow> 0 | Some n \<Rightarrow> n)
             + (int a + int b)))"
proof (intro conjI allI impI)
  fix k s
  assume "sessions (run enc cs) k = Some s"
  then show "totalTokenCount s = (\<Sum>f\<leftarrow>files s. case tokenCount f of None \<Rightarrow> 0 | Some n \<Rightarrow> n)"
    by (simp add: run_total sumTokenCount_sum_list)
next
  fix w key filePath review pr sid s i a b
  assume h: "resolveKey (run enc cs) key = Some sid \<and> getSession (run enc cs) sid = Some s \<and>
      findIndex (\<lambda>f. path f = filePath) (files s) = Some i \<and>
      enc (fileContentRead w key pr filePath) = Some a \<and> enc review = Some b"
  let ?r = "reviewedAt s i True review None (int a + int b)"
  from h have i: "i < length (files s)"
    using findIndex_Some by blast
  from h have old: "totalTokenCount s = sumTokenCount (files s)"
    using run_total [of enc cs sid s] by (simp add: getSession_def)
  have t1: "tokenCount (files ?r ! i) = Some (int a + int b)"
    using i by (simp add: files_reviewedAt)
  have t2: "totalTokenCount ?r = sumTokenCount (files ?r)"
    by simp
  have t3: "totalTokenCount ?r =
      totalTokenCount s - (case tokenCount (files s ! i) of None \<Rightarrow> 0 | Some n \<Rightarrow> n)
        + (int a + int b)"
    using i old
    by (simp add: files_reviewedAt sumTokenCount_update tokenCount_or_0_eq)
  from h submit_on_run [of enc cs key sid s filePath i w pr a review b]
  obtain s' st' x where
    s': "submit_file_review enc w key filePath review pr (run enc cs) = (ReviewSubmitted s' x, st')"
      "getSession st' sid = Some s'" "s' = ?r\<lparr>updatedAt := isoNow w\<rparr>"
    by blast
  from s'(3) t1 t2 t3 have
    "tokenCount (files s' ! i) = Some (int a + int b)"
    "totalTokenCount s' = (\<Sum>f\<leftarrow>files s'. case tokenCount f of None \<Rightarrow> 0 | Some n \<Rightarrow> n)"
    "totalTokenCount s' =
      totalTokenCount s - (case tokenCount (files s ! i) of None \<Rightarrow> 0 | Some n \<Rightarrow> n)
        + (int a + int b)"
    by (simp_all add: sumTokenCount_sum_list)
  with s'(1,2) show "\<exists>s' st' x.
         submit_file_review enc w key filePath review pr (run enc cs) = (ReviewSubmitted s' x, st') \<and>
         getSession st' sid = Some s' \<and>
         tokenCount (files s' ! i) = Some (int a + int b) \<and>
         totalTokenCount s' = (\<Sum>f\<leftarrow>files s'. case tokenCount f of None \<Rightarrow> 0 | Some n \<Rightarrow> n) \<and>
         totalTokenCount s' =
           totalTokenCount s - (case tokenCount (files s ! i) of None \<Rightarrow> 0 | Some n \<Rightarrow> n)
             + (int a + int b)"
    by blast
qed

theorem totalTokenCount_is_sum_witness:
  "sessions (run char_tokenizer [start_ab, submit_a]) example_id = Some session_a \<and>
   totalTokenCount session_a = 10 \<and>
   map tokenCount (files session_a) = [Some 10, None] \<and>
   char_tokenizer (fileContentRead (world_at ''t3'') ''/repo'' None ''a.ts'') = Some 0 \<and>
   char_tokenizer ''ok'' = Some 2 \<and>
   (\<exists>s' st' x.
      submit_file_review char_tokenizer (world_at ''t3'') ''/repo'' ''a.ts'' ''ok'' None
        (run char_tokenizer [start_ab, submit_a]) = (ReviewSubmitted s' x, st') \<and>
      getSession st' example_id = Some s' \<and>
      tokenCount (files s' ! 0) = Some 2 \<and>
      totalTokenCount s' = (\<Sum>f\<leftarrow>files s'. case tokenCount f of None \<Rightarrow> 0 | Some n \<Rightarrow> n) \<and>
      totalTokenCount s' = 2)"
proof -
  have g: "sessions (run char_tokenizer [start_ab, submit_a]) example_id = Some session_a"
    using get_run2 by (simp add: getSession_def)
  have i: "findIndex (\<lambda>f. path f = ''a.ts'') (files session_a) = Some 0"
    by (simp add: session_a_simps file_a_def)
  have a: "char_tokenizer (fileContentRead (world_at ''t3'') ''/repo'' None ''a.ts'') = Some 0"
    by (simp add: fileContentRead_world_at char_tokenizer_def)
  have b: "char_tokenizer ''ok'' = Some 2"
    by (simp add: char_tokenizer_def)
  have "totalTokenCount session_a
          = (\<Sum>f\<leftarrow>files session_a. case tokenCount f of None \<Rightarrow> 0 | Some n \<Rightarrow> n)"
    using totalTokenCount_is_sum [of char_tokenizer "[start_ab, submit_a]", THEN conjunct1] g
    by blast
  then have t: "totalTokenCount session_a = 10"
    by (simp add: session_a_simps file_a_def newReviewFile_def)
  have "\<exists>s' st' x.
      submit_file_review char_tokenizer (world_at ''t3'') ''/repo'' ''a.ts'' ''ok'' None
        (run char_tokenizer [start_ab, submit_a]) = (ReviewSubmitted s' x, st') \<and>
      getSession st' example_id = Some s' \<and>
      tokenCount (files s' ! 0) = Some (int 0 + int 2) \<and>
      totalTokenCount s' = (\<Sum>f\<leftarrow>files s'. case tokenCount f of None \<Rightarrow> 0 | Some n \<Rightarrow> n) \<and>
      totalTokenCount s' =
        totalTokenCount session_a
          - (case tokenCount (files session_a ! 0) of None \<Rightarrow> 0 | Some n \<Rightarrow> n)
          + (int 0 + int 2)"
    using totalTokenCount_is_sum [of char_tokenizer "[start_ab, submit_a]", THEN conjunct2]
      resolve_run2 get_run2 i a b by blast
  then show ?thesis
    using g t a b
    by (simp add: session_a_simps file_a_def newReviewFile_def)
qed

text \<open>
  Claim C4. When the project index maps the project root to a session that is not
  completed, start-review-session with \<^verbatim>\<open>forceNew\<close> absent or false answers
  \<^verbatim>\<open>resumed\<close> in every mode: the index is unchanged and still maps the project root to
  the same id, no session file is added, the only session written is this one, with
  \<^verbatim>\<open>currentSessionTokenCount = 0\<close> and a refreshed \<^verbatim>\<open>updatedAt\<close>, and its id, files,
  \<^verbatim>\<open>totalTokenCount\<close>, \<^verbatim>\<open>tokenLimit\<close> and \<^verbatim>\<open>completed\<close> are unchanged.
\<close>

theorem resume_keeps_session:
  assumes "getSessionIdForProject (run enc cs) pr = Some sid"
      and "getSession (run enc cs) sid = Some s"
      and "\<not> completed s"
      and "forceNew = None \<or> forceNew = Some False"
  shows "\<exists>s' st'. start_review_session w pr mode glob fls lim forceNew (run enc cs) = (Resumed s', st') \<and>
           s' = s\<lparr>currentSessionTokenCount := 0, updatedAt := isoNow w\<rparr> \<and>
           projectIndex st' = projectIndex (run enc cs) \<and>
           getSessionIdForProject st' pr = Some sid \<and>
           dom (sessions st') = dom (sessions (run enc cs)) \<and>
           sessions st' = (sessions (run enc cs))(sid \<mapsto> s') \<and>
           id_session s' = sid \<and> id_session s' = id_session s \<and>
           currentSessionTokenCount s' = 0 \<and>
           totalTokenCount s' = totalTokenCount s \<and> files s' = files s \<and>
           tokenLimit s' = tokenLimit s \<and> completed s' = completed s"
proof -
  let ?st = "run enc cs"
  let ?s' = "s\<lparr>currentSessionTokenCount := 0, updatedAt := isoNow w\<rparr>"
  let ?st' = "put_session (isoNow w) (s\<lparr>currentSessionTokenCount := 0\<rparr>) ?st"
  have id: "id_session s = sid"
    using assms(2) by (rule run_getSession_id)
  have r: "resume_existing w pr ?st = Some (Resumed ?s', ?st')"
    using assms(1-3) by (rule resume_existing_Some)
  have "start_review_session w pr mode glob fls lim forceNew ?st = (Resumed ?s', ?st')"
    using assms(4) r by (cases "mode = Resume") (auto simp: start_review_session_def)
  moreover have "projectIndex ?st' = projectIndex ?st"
    by (simp add: projectIndex_put_session)
  moreover have "getSessionIdForProject ?st' pr = Some sid"
    using assms(1) by (simp add: getSessionIdForProject_def projectIndex_put_session)
  moreover have "sessions ?st' = (sessions ?st)(sid \<mapsto> ?s')"
    using id by (simp add: put_session_def)
  moreover have "dom (sessions ?st') = dom (sessions ?st)"
    using id assms(2) by (auto simp: put_session_def getSession_def)
  ultimately show ?thesis
    using id by simp
qed

theorem resume_keeps_session_witness:
  "getSessionIdForProject (run char_tokenizer [start_ab, submit_a]) ''/repo'' = Some example_id \<and>
   getSession (run char_tokenizer [start_ab, submit_a]) example_id = Some session_a \<and>
   \<not> completed session_a \<and>
   (\<exists>s' st'.
      start_review_session (world_at ''t3'') ''/repo'' Resume None None None None
        (run char_tokenizer [start_ab, submit_a]) = (Resumed s', st') \<and>
      projectIndex st' = projectIndex (run char_tokenizer [start_ab, submit_a]) \<and>
      sessions st' = (sessions (run char_tokenizer [start_ab, submit_a]))(example_id \<mapsto> s') \<and>
      id_session s' = example_id \<and> currentSessionTokenCount s' = 0 \<and>
      totalTokenCount s' = 10 \<and> files s' = [file_a, newReviewFile ''b.ts''] \<and>
      tokenLimit s' = 100 \<and> completed s' = False)"
proof -
  have p: "getSessionIdForProject (run char_tokenizer [start_ab, submit_a]) ''/repo'' = Some example_id"
    using getSessionIdForProject_store_of [of session_a]
    by (simp add: run2 session_a_simps example_id_simps)
  have c: "\<not> completed session_a"
    by (simp add: session_a_simps)
  from resume_keeps_session [OF p get_run2 c, of None "world_at ''t3''" Resume None None None]
  show ?thesis
    using p get_run2 c by (auto simp: session_a_simps)
qed

text \<open>
  Claim C5, as stated, fails in its last part: a second complete-review-session on a
  completed session is not a no-op. \<^verbatim>\<open>completeSession\<close> saves the session again and
  \<^verbatim>\<open>saveSession\<close> refreshes \<^verbatim>\<open>updatedAt\<close>: after the review of \<^verbatim>\<open>a.ts\<close> and \<^verbatim>\<open>b.ts\<close> and
  a completion at \<^verbatim>\<open>t4\<close>, a second completion at \<^verbatim>\<open>t5\<close> succeeds and leaves a store
  that differs from the one before.
\<close>

theorem complete_again_refreshes_updatedAt:
  "map_option completed
     (getSession (run char_tokenizer [start_ab, submit_a, submit_b, complete_ab]) example_id) = Some True \<and>
   fst (complete_review_session (world_at ''t5'') ''/repo''
          (run char_tokenizer [start_ab, submit_a, submit_b, complete_ab]))
     = SessionCompleted (session_done\<lparr>updatedAt := ''t5''\<rparr>) \<and>
   map_option updatedAt
     (getSession (run char_tokenizer [start_ab, submit_a, submit_b, complete_ab]) example_id) = Some ''t4'' \<and>
   map_option updatedAt
     (getSession (snd (complete_review_session (world_at ''t5'') ''/repo''
          (run char_tokenizer [start_ab, submit_a, submit_b, complete_ab]))) example_id) = Some ''t5'' \<and>
   snd (complete_review_session (world_at ''t5'') ''/repo''
          (run char_tokenizer [start_ab, submit_a, submit_b, complete_ab]))
     \<noteq> run char_tokenizer [start_ab, submit_a, submit_b, complete_ab]"
proof -
  let ?st = "run char_tokenizer [start_ab, submit_a, submit_b, complete_ab]"
  have p: "pendingCount session_done = 0"
    by (simp add: pendingCount_def session_done_simps file_a_def file_b_def)
  have c: "complete_review_session (world_at ''t5'') ''/repo'' ?st =
      (SessionCompleted (session_done\<lparr>updatedAt := ''t5''\<rparr>),
       put_session ''t5'' session_done ?st)"
    using complete_review_session_done [OF resolve_run4 get_run4 p, of "world_at ''t5''"]
    by (simp add: isoNow_world_at session_done_def)
  have u: "getSession (put_session ''t5'' session_done ?st) example_id
             = Some (session_done\<lparr>updatedAt := ''t5''\<rparr>)"
    by (simp add: getSession_put_session session_done_simps)
  have "session_done\<lparr>updatedAt := ''t5''\<rparr> \<noteq> session_done"
  proof
    assume "session_done\<lparr>updatedAt := ''t5''\<rparr> = session_done"
    then have "updatedAt (session_done\<lparr>updatedAt := ''t5''\<rparr>) = updatedAt session_done"
      by simp
    then show False
      by (simp add: session_done_simps)
  qed
  then have "getSession (put_session ''t5'' session_done ?st) example_id \<noteq> getSession ?st example_id"
    unfolding u get_run4 by simp
  then have "put_session ''t5'' session_done ?st \<noteq> ?st"
    by auto
  then show ?thesis
    by (simp add: c u get_run4 session_done_simps)
qed

text \<open>
  Claim C5, amended. For a key that resolves to a session of a run:
  complete-review-session fails with the count of pending files while some file is not
  reviewed, and then the store is unchanged and the session is not completed; it succeeds
  when every file is reviewed, and then the stored session is the old one with
  \<^verbatim>\<open>completed = true\<close> and a refreshed \<^verbatim>\<open>updatedAt\<close>; on a session that is already
  completed it succeeds again and changes nothing but \<^verbatim>\<open>updatedAt\<close>.
\<close>

theorem complete_review_session_outcome:
  assumes "resolveKey (run enc cs) key = Some sid" and "getSession (run enc cs) sid = Some s"
  shows "((\<exists>f\<in>set (files s). \<not> reviewed f) \<longrightarrow>
            complete_review_session w key (run enc cs) =
              (PendingFiles (length (filter reviewed (files s)))
                 (length (filter (\<lambda>f. \<not> reviewed f) (files s))) (length (files s)),
               run enc cs) \<and>
            0 < length (filter (\<lambda>f. \<not> reviewed f) (files s)) \<and> \<not> completed s) \<and>
         ((\<forall>f\<in>set (files s). reviewed f) \<longrightarrow>
            complete_review_session w key (run enc cs) =
              (SessionCompleted (s\<lparr>completed := True, updatedAt := isoNow w\<rparr>),
               (run enc cs)\<lparr>sessions := (sessions (run enc cs))
                   (sid \<mapsto> s\<lparr>completed := True, updatedAt := isoNow w\<rparr>)\<rparr>)) \<and>
         (completed s \<longrightarrow>
            complete_review_session w key (run enc cs) =
              (SessionCompleted (s\<lparr>updatedAt := isoNow w\<rparr>),
               (run enc cs)\<lparr>sessions := (sessions (run enc cs))
                   (sid \<mapsto> s\<lparr>updatedAt := isoNow w\<rparr>)\<rparr>))"
proof -
  let ?st = "run enc cs"
  have id: "id_session s = sid"
    using assms(2) by (rule run_getSession_id)
  have stored: "sessions ?st sid = Some s"
    using assms(2) by (simp add: getSession_def)
  have pend: "complete_review_session w key ?st =
              (PendingFiles (length (filter reviewed (files s)))
                 (length (filter (\<lambda>f. \<not> reviewed f) (files s))) (length (files s)), ?st) \<and>
            0 < length (filter (\<lambda>f. \<not> reviewed f) (files s)) \<and> \<not> completed s"
    if "\<exists>f\<in>set (files s). \<not> reviewed f"
  proof -
    from that have p: "0 < pendingCount s" by (simp add: pendingCount_pos_iff)
    then have "\<not> completed s" using run_completed [OF stored] by auto
    with p complete_review_session_pending [OF assms p, of w] show ?thesis
      by (simp add: pendingCount_def)
  qed
  have fin: "complete_review_session w key ?st =
              (SessionCompleted (s\<lparr>completed := True, updatedAt := isoNow w\<rparr>),
               ?st\<lparr>sessions := (sessions ?st)(sid \<mapsto> s\<lparr>completed := True, updatedAt := isoNow w\<rparr>)\<rparr>)"
    if "\<forall>f\<in>set (files s). reviewed f"
  proof -
    from that have "pendingCount s = 0" by (simp add: pendingCount_0_iff)
    from complete_review_session_done [OF assms this, of w] show ?thesis
      using id by (simp add: put_session_def)
  qed
  have again: "complete_review_session w key ?st =
              (SessionCompleted (s\<lparr>updatedAt := isoNow w\<rparr>),
               ?st\<lparr>sessions := (sessions ?st)(sid \<mapsto> s\<lparr>updatedAt := isoNow w\<rparr>)\<rparr>)"
    if c: "completed s"
  proof -
    from c have "pendingCount s = 0" by (rule run_completed [OF stored])
    then have "\<forall>f\<in>set (files s). reviewed f" by (simp add: pendingCount_0_iff)
    moreover from c have "s\<lparr>completed := True\<rparr> = s" by simp
    ultimately show ?thesis using fin by simp
  qed
  from pend fin again show ?thesis by blast
qed

theorem complete_review_session_outcome_witness:
  "resolveKey (run char_tokenizer [start_ab, submit_a]) ''/repo'' = Some example_id \<and>
   getSession (run char_tokenizer [start_ab, submit_a]) example_id = Some session_a \<and>
   \<not> reviewed (files session_a ! 1) \<and>
   complete_review_session (world_at ''t3'') ''/repo'' (run char_tokenizer [start_ab, submit_a])
     = (PendingFiles 1 1 2, run char_tokenizer [start_ab, submit_a]) \<and>
   \<not> completed session_a \<and>
   complete_review_session (world_at ''t4'') ''/repo'' (run char_tokenizer [start_ab, submit_a, submit_b])
     = (SessionCompleted session_done,
        (run char_tokenizer [start_ab, submit_a, submit_b])
          \<lparr>sessions := (sessions (run char_tokenizer [start_ab, submit_a, submit_b]))
              (example_id \<mapsto> session_done)\<rparr>) \<and>
   completed session_done \<and>
   complete_review_session (world_at ''t5'') ''/repo''
       (run char_tokenizer [start_ab, submit_a, submit_b, complete_ab])
     = (SessionCompleted (session_done\<lparr>updatedAt := ''t5''\<rparr>),
        (run char_tokenizer [start_ab, submit_a, submit_b, complete_ab])
          \<lparr>sessions := (sessions (run char_tokenizer [start_ab, submit_a, submit_b, complete_ab]))
              (example_id \<mapsto> session_done\<lparr>updatedAt := ''t5''\<rparr>)\<rparr>)"
proof -
  have 1: "complete_review_session (world_at ''t3'') ''/repo'' (run char_tokenizer [start_ab, submit_a])
     = (PendingFiles 1 1 2, run char_tokenizer [start_ab, submit_a]) \<and> \<not> completed session_a"
    using complete_review_session_outcome [OF resolve_run2 get_run2, of "world_at ''t3''",
        THEN conjunct1]
    by (simp add: session_a_simps file_a_def newReviewFile_def)
  have 2: "complete_review_session (world_at ''t4'') ''/repo''
       (run char_tokenizer [start_ab, submit_a, submit_b])
     = (SessionCompleted session_done,
        (run char_tokenizer [start_ab, submit_a, submit_b])
          \<lparr>sessions := (sessions (run char_tokenizer [start_ab, submit_a, submit_b]))
              (example_id \<mapsto> session_done)\<rparr>)"
    using complete_review_session_outcome [OF resolve_run3 get_run3, of "world_at ''t4''",
        THEN conjunct2, THEN conjunct1]
    by (simp add: session_reviewed_simps file_a_def file_b_def isoNow_world_at)
       (simp add: session_done_def session_reviewed_def session_ab_def)
  have 3: "complete_review_session (world_at ''t5'') ''/repo''
       (run char_tokenizer [start_ab, submit_a, submit_b, complete_ab])
     = (SessionCompleted (session_done\<lparr>updatedAt := ''t5''\<rparr>),
        (run char_tokenizer [start_ab, submit_a, submit_b, complete_ab])
          \<lparr>sessions := (sessions (run char_tokenizer [start_ab, submit_a, submit_b, complete_ab]))
              (example_id \<mapsto> session_done\<lparr>updatedAt := ''t5''\<rparr>)\<rparr>)"
    using complete_review_session_outcome [OF resolve_run4 get_run4, of "world_at ''t5''",
        THEN conjunct2, THEN conjunct2]
    by (simp add: session_done_simps isoNow_world_at)
  from 1 2 3 resolve_run2 get_run2 show ?thesis
    by (simp add: session_a_simps session_done_simps newReviewFile_def)
qed

text \<open>
  Claim C6, as stated, fails: \<^verbatim>\<open>tokenCount\<close> is assigned by every successful submission
  and can decrease. With no readable file and one token for each character, the
  \<^verbatim>\<open>tokenCount\<close> of \<^verbatim>\<open>a.ts\<close> is absent after the session is created, 10 after the review
  "looks good" and 0 after a second submission with an empty review.
\<close>

theorem tokenCount_assigned_twice_and_decreased:
  "getSession (run char_tokenizer [start_ab]) example_id = Some session_ab \<and>
   map tokenCount (files session_ab) = [None, None] \<and>
   getSession (run char_tokenizer [start_ab, submit_a]) example_id = Some session_a \<and>
   map tokenCount (files session_a) = [Some 10, None] \<and>
   getSession (run char_tokenizer [start_ab, submit_a, resubmit_a]) example_id = Some session_a_again \<and>
   map tokenCount (files session_a_again) = [Some 0, None]"
proof -
  have "getSession (run char_tokenizer [start_ab, submit_a, resubmit_a]) example_id = Some session_a_again"
    using getSession_store_of [of session_a_again]
    by (simp add: run2_again session_a_again_def session_ab_simps)
  then show ?thesis
    by (simp add: get_run1 get_run2 session_ab_simps session_a_simps session_a_again_def
        newReviewFile_def file_a_def)
qed

text \<open>
  Claim C6, amended. In a session of a run, every submission for a path on which the
  tokenizer returns succeeds and sets the \<^verbatim>\<open>tokenCount\<close> of the first entry with that
  path to the cost of that submission (the tokens of the file content, of the text
  submitted and 0 for the absent \<^verbatim>\<open>agentReview\<close> argument), whatever it was before, and
  leaves the \<^verbatim>\<open>tokenCount\<close> of every other entry as it is; completing and resuming
  change no \<^verbatim>\<open>tokenCount\<close>.
\<close>

theorem tokenCount_assigned_by_submissions_only:
  assumes "getSession (run enc cs) sid = Some s"
  shows "(\<forall>w key filePath review pr i a b.
            resolveKey (run enc cs) key = Some sid \<and>
            findIndex (\<lambda>f. path f = filePath) (files s) = Some i \<and>
            enc (fileContentRead w key pr filePath) = Some a \<and> enc review = Some b \<longrightarrow>
            (\<exists>s' st' x.
               submit_file_review enc w key filePath review pr (run enc cs)
                 = (ReviewSubmitted s' x, st') \<and>
               getSession st' sid = Some s' \<and>
               tokenCount (files s' ! i) = Some (int a + int b + 0) \<and>
               (\<forall>j. j \<noteq> i \<longrightarrow> tokenCount (files s' ! j) = tokenCount (files s ! j)))) \<and>
         (\<forall>w key r st'.
            complete_review_session w key (run enc cs) = (r, st') \<longrightarrow>
            (\<exists>s'. getSession st' sid = Some s' \<and>
                  map tokenCount (files s') = map tokenCount (files s))) \<and>
         (\<forall>w pr mode glob fls lim forceNew s1 st'.
            start_review_session w pr mode glob fls lim forceNew (run enc cs) = (Resumed s1, st') \<longrightarrow>
            (\<exists>s'. getSession st' sid = Some s' \<and>
                  map tokenCount (files s') = map tokenCount (files s)))"
proof (intro conjI allI impI)
  fix w key filePath review pr i a b
  assume h: "resolveKey (run enc cs) key = Some sid \<and>
            findIndex (\<lambda>f. path f = filePath) (files s) = Some i \<and>
            enc (fileContentRead w key pr filePath) = Some a \<and> enc review = Some b"
  from h have i: "i < length (files s)"
    using findIndex_Some by blast
  from h assms submit_on_run [of enc cs key sid s filePath i w pr a review b]
  obtain s' st' x where
    s': "submit_file_review enc w key filePath review pr (run enc cs) = (ReviewSubmitted s' x, st')"
      "getSession st' sid = Some s'"
      "s' = (reviewedAt s i True review None (int a + int b))\<lparr>updatedAt := isoNow w\<rparr>"
    by blast
  from s'(3) i have "tokenCount (files s' ! i) = Some (int a + int b + 0)"
    "\<forall>j. j \<noteq> i \<longrightarrow> tokenCount (files s' ! j) = tokenCount (files s ! j)"
    by (simp_all add: files_reviewedAt)
  with s'(1,2) show "\<exists>s' st' x.
               submit_file_review enc w key filePath review pr (run enc cs)
                 = (ReviewSubmitted s' x, st') \<and>
               getSession st' sid = Some s' \<and>
               tokenCount (files s' ! i) = Some (int a + int b + 0) \<and>
               (\<forall>j. j \<noteq> i \<longrightarrow> tokenCount (files s' ! j) = tokenCount (files s ! j))"
    by blast
next
  fix w key r st'
  assume "complete_review_session w key (run enc cs) = (r, st')"
  from complete_review_session_cases [OF this]
  show "\<exists>s'. getSession st' sid = Some s' \<and> map tokenCount (files s') = map tokenCount (files s)"
  proof (elim disjE exE conjE)
    assume "st' = run enc cs"
    with assms show ?thesis by simp
  next
    fix sid0 s0
    assume b: "getSession (run enc cs) sid0 = Some s0"
      "st' = put_session (isoNow w) (s0\<lparr>completed := True\<rparr>) (run enc cs)"
    from b(1) have "id_session s0 = sid0" by (rule run_getSession_id)
    with assms b show ?thesis
      by (auto simp: getSession_put_session)
  qed
next
  fix w pr mode glob fls lim forceNew s1 st'
  assume "start_review_session w pr mode glob fls lim forceNew (run enc cs) = (Resumed s1, st')"
  from start_review_session_cases [OF this]
  show "\<exists>s'. getSession st' sid = Some s' \<and> map tokenCount (files s') = map tokenCount (files s)"
  proof (elim disjE exE conjE)
    assume "st' = run enc cs"
    with assms show ?thesis by simp
  next
    fix sid0 s0
    assume b: "getSession (run enc cs) sid0 = Some s0"
      "st' = put_session (isoNow w) (s0\<lparr>currentSessionTokenCount := 0\<rparr>) (run enc cs)"
    from b(1) have "id_session s0 = sid0" by (rule run_getSession_id)
    with assms b show ?thesis
      by (auto simp: getSession_put_session)
  qed simp
qed

theorem tokenCount_assigned_by_submissions_only_witness:
  "getSession (run char_tokenizer [start_ab, submit_a]) example_id = Some session_a \<and>
   map tokenCount (files session_a) = [Some 10, None] \<and>
   (\<exists>s' st' x.
      submit_file_review char_tokenizer (world_at ''t3'') ''/repo'' ''a.ts'' [] None
        (run char_tokenizer [start_ab, submit_a]) = (ReviewSubmitted s' x, st') \<and>
      getSession st' example_id = Some s' \<and>
      tokenCount (files s' ! 0) = Some 0 \<and> tokenCount (files s' ! 1) = None) \<and>
   (\<exists>s'. getSession (snd (complete_review_session (world_at ''t3'') ''/repo''
                             (run char_tokenizer [start_ab, submit_a]))) example_id = Some s' \<and>
         map tokenCount (files s') = [Some 10, None]) \<and>
   (\<exists>s'. getSession (snd (start_review_session (world_at ''t3'') ''/repo'' Resume None None
                             None None (run char_tokenizer [start_ab, submit_a]))) example_id = Some s' \<and>
         map tokenCount (files s') = [Some 10, None])"
proof -
  note t = tokenCount_assigned_by_submissions_only [OF get_run2]
  have i: "findIndex (\<lambda>f. path f = ''a.ts'') (files session_a) = Some 0"
    by (simp add: session_a_simps file_a_def)
  have m: "map tokenCount (files session_a) = [Some 10, None]"
    by (simp add: session_a_simps file_a_def newReviewFile_def)
  have a: "char_tokenizer (fileContentRead (world_at ''t3'') ''/repo'' None ''a.ts'') = Some 0"
    "char_tokenizer [] = Some 0"
    by (simp_all add: fileContentRead_world_at char_tokenizer_def)
  have "\<exists>s' st' x.
      submit_file_review char_tokenizer (world_at ''t3'') ''/repo'' ''a.ts'' [] None
        (run char_tokenizer [start_ab, submit_a]) = (ReviewSubmitted s' x, st') \<and>
      getSession st' example_id = Some s' \<and>
      tokenCount (files s' ! 0) = Some (int 0 + int 0 + 0) \<and>
      (\<forall>j. j \<noteq> 0 \<longrightarrow> tokenCount (files s' ! j) = tokenCount (files session_a ! j))"
    using t [THEN conjunct1] resolve_run2 i a by blast
  then have 1: "\<exists>s' st' x.
      submit_file_review char_tokenizer (world_at ''t3'') ''/repo'' ''a.ts'' [] None
        (run char_tokenizer [start_ab, submit_a]) = (ReviewSubmitted s' x, st') \<and>
      getSession st' example_id = Some s' \<and>
      tokenCount (files s' ! 0) = Some 0 \<and> tokenCount (files s' ! 1) = None"
    by (auto simp: session_a_simps newReviewFile_def)
  have 2: "\<exists>s'. getSession (snd (complete_review_session (world_at ''t3'') ''/repo''
                             (run char_tokenizer [start_ab, submit_a]))) example_id = Some s' \<and>
         map tokenCount (files s') = [Some 10, None]"
    using t [THEN conjunct2, THEN conjunct1, rule_format, of "world_at ''t3''" "''/repo''"
        "fst (complete_review_session (world_at ''t3'') ''/repo'' (run char_tokenizer [start_ab, submit_a]))"
        "snd (complete_review_session (world_at ''t3'') ''/repo'' (run char_tokenizer [start_ab, submit_a]))"]
    by (simp add: m)
  have p: "getSessionIdForProject (run char_tokenizer [start_ab, submit_a]) ''/repo'' = Some example_id"
    using getSessionIdForProject_store_of [of session_a]
    by (simp add: run2 session_a_simps example_id_simps)
  have r: "start_review_session (world_at ''t3'') ''/repo'' Resume None None None None
            (run char_tokenizer [start_ab, submit_a])
         = (Resumed (session_a\<lparr>currentSessionTokenCount := 0, updatedAt := ''t3''\<rparr>),
            put_session ''t3'' (session_a\<lparr>currentSessionTokenCount := 0\<rparr>)
              (run char_tokenizer [start_ab, submit_a]))"
    using resume_existing_Some [OF p get_run2, of "world_at ''t3''"]
    by (simp add: start_review_session_def session_a_simps isoNow_world_at)
  have 3: "\<exists>s'. getSession (snd (start_review_session (world_at ''t3'') ''/repo'' Resume None None
                             None None (run char_tokenizer [start_ab, submit_a]))) example_id = Some s' \<and>
         map tokenCount (files s') = [Some 10, None]"
    using t [THEN conjunct2, THEN conjunct2, rule_format, OF r]
    by (simp add: m r)
  from get_run2 m 1 2 3 show ?thesis by simp
qed

text \<open>
  Claim C8, as stated, fails: a submission for a file that cannot be read does not always
  succeed. \<^verbatim>\<open>updateFileReview\<close> counts the tokens of the text submitted outside every
  \<^verbatim>\<open>try\<close>, and the tokenizer throws on a text that holds a special token: the tool call
  fails, nothing is saved and the entry is not reviewed.
\<close>

theorem submit_unreadable_file_tokenizer_throws:
  "resolveKey (run special_tokenizer [start_ab]) ''/repo'' = Some example_id \<and>
   getSession (run special_tokenizer [start_ab]) example_id = Some session_ab \<and>
   ''a.ts'' \<in> path ` set (files session_ab) \<and>
   readFileSync (world_at ''t2'') (submitRoot ''/repo'' None) ''a.ts'' = None \<and>
   special_tokenizer [] = Some 0 \<and>
   special_tokenizer ''ends at <|endoftext|>'' = None \<and>
   submit_file_review special_tokenizer (world_at ''t2'') ''/repo'' ''a.ts''
       ''ends at <|endoftext|>'' None (run special_tokenizer [start_ab])
     = (ToolCallFailed, run special_tokenizer [start_ab]) \<and>
   \<not> reviewed (files session_ab ! 0)"
proof -
  have m: "''a.ts'' \<in> path ` set (files session_ab)"
    by (simp add: session_ab_simps newReviewFile_def)
  have u: "readFileSync (world_at ''t2'') (submitRoot ''/repo'' None) ''a.ts'' = None"
    by (simp add: world_at_def)
  have e: "special_tokenizer [] = Some 0" "special_tokenizer ''ends at <|endoftext|>'' = None"
    by (simp_all add: special_tokenizer_def)
  have i: "findIndex (\<lambda>f. path f = ''a.ts'') (files session_ab) = Some 0"
    by (simp add: session_ab_simps newReviewFile_def)
  have c: "submissionCost special_tokenizer
             (fileContentRead (world_at ''t2'') ''/repo'' None ''a.ts'')
             ''ends at <|endoftext|>'' None = None"
    by (simp add: submissionCost_def countToken_def fileContentRead_world_at e)
  have "submit_file_review special_tokenizer (world_at ''t2'') ''/repo'' ''a.ts''
       ''ends at <|endoftext|>'' None (run special_tokenizer [start_ab])
     = (ToolCallFailed, run special_tokenizer [start_ab])"
    by (rule submit_file_review_thrown [OF resolve_run1 get_run1 i c])
  with m u e resolve_run1 get_run1 show ?thesis
    by (simp add: session_ab_simps newReviewFile_def)
qed

text \<open>
  Claim C8, amended. For a tokenizer that gives no token for the empty text and returns
  on the text submitted, a key that resolves to a session of a run and a path of its file
  list: when the file cannot be read, submit-file-review succeeds, the entry is marked
  reviewed and its \<^verbatim>\<open>tokenCount\<close> is 0 for the content plus the tokens of the text
  submitted, which index.ts passes as \<^verbatim>\<open>feedback\<close>, plus 0 for the absent
  \<^verbatim>\<open>agentReview\<close> argument. For every call of \<^verbatim>\<open>updateFileReview\<close> with the empty
  content on whose \<^verbatim>\<open>feedback\<close> and \<^verbatim>\<open>agentReview\<close> the tokenizer returns, the cost is
  the tokens of \<^verbatim>\<open>feedback\<close> plus those of \<^verbatim>\<open>agentReview\<close>.
\<close>

theorem submit_unreadable_file:
  assumes "enc [] = Some 0" and "enc review = Some n"
      and "resolveKey (run enc cs) key = Some sid" and "getSession (run enc cs) sid = Some s"
      and "filePath \<in> path ` set (files s)"
      and "readFileSync w (submitRoot key pr) filePath = None"
  shows "\<exists>s' st' x i.
           submit_file_review enc w key filePath review pr (run enc cs) = (ReviewSubmitted s' x, st') \<and>
           getSession st' sid = Some s' \<and>
           findIndex (\<lambda>f. path f = filePath) (files s) = Some i \<and>
           i < length (files s') \<and> path (files s' ! i) = filePath \<and>
           reviewed (files s' ! i) \<and>
           tokenCount (files s' ! i) = Some (0 + int n + 0) \<and>
           (\<forall>rv fb ar m k.
              enc fb = Some m \<and> (case ar of None \<Rightarrow> k = 0 | Some t \<Rightarrow> enc t = Some k) \<longrightarrow>
              (\<exists>s2 st2.
                 updateFileReview enc w sid filePath [] rv fb ar (run enc cs) = Inr (Some s2, st2) \<and>
                 tokenCount (files s2 ! i) = Some (0 + int m + int k)))"
proof -
  from assms(5) obtain i where i: "findIndex (\<lambda>f. path f = filePath) (files s) = Some i"
    using findIndex_path_member by blast
  from findIndex_Some [OF i] have il: "i < length (files s)" and ip: "path (files s ! i) = filePath"
    by auto
  have fc: "fileContentRead w key pr filePath = []"
    using assms(6) by (simp add: fileContentRead_def)
  have cost: "submissionCost enc [] fb ar = Some (0 + int m + int k)"
    if "enc fb = Some m" and "case ar of None \<Rightarrow> k = 0 | Some t \<Rightarrow> enc t = Some k"
    for fb ar m k
    using that assms(1) by (auto simp: submissionCost_def countToken_def split: option.splits)
  from submit_on_run [OF assms(3,4) i, of w pr 0 review n] assms(1,2)
  obtain s' st' x where
    s': "submit_file_review enc w key filePath review pr (run enc cs) = (ReviewSubmitted s' x, st')"
      "getSession st' sid = Some s'"
      "s' = (reviewedAt s i True review None (int n))\<lparr>updatedAt := isoNow w\<rparr>"
    unfolding fc by auto
  from s'(3) il ip have e: "i < length (files s')" "path (files s' ! i) = filePath"
    "reviewed (files s' ! i)"
    "tokenCount (files s' ! i) = Some (0 + int n + 0)"
    by (simp_all add: files_reviewedAt)
  have u: "\<exists>s2 st2.
      updateFileReview enc w sid filePath [] rv fb ar (run enc cs) = Inr (Some s2, st2) \<and>
      tokenCount (files s2 ! i) = Some (0 + int m + int k)"
    if "enc fb = Some m \<and> (case ar of None \<Rightarrow> k = 0 | Some t \<Rightarrow> enc t = Some k)"
    for rv fb ar m k
  proof -
    from that have "submissionCost enc [] fb ar = Some (0 + int m + int k)"
      using cost by blast
    then show ?thesis
      using il by (simp add: updateFileReview_found [OF assms(4) i] reviewFileAt_eq
          files_reviewedAt)
  qed
  from s'(1,2) i e u show ?thesis by blast
qed

theorem submit_unreadable_file_witness:
  "char_tokenizer [] = Some 0 \<and> char_tokenizer ''looks good'' = Some 10 \<and>
   resolveKey (run char_tokenizer [start_ab]) ''/repo'' = Some example_id \<and>
   getSession (run char_tokenizer [start_ab]) example_id = Some session_ab \<and>
   ''a.ts'' \<in> path ` set (files session_ab) \<and>
   readFileSync (world_at ''t2'') (submitRoot ''/repo'' None) ''a.ts'' = None \<and>
   (\<exists>s' st' x.
      submit_file_review char_tokenizer (world_at ''t2'') ''/repo'' ''a.ts'' ''looks good'' None
        (run char_tokenizer [start_ab]) = (ReviewSubmitted s' x, st') \<and>
      getSession st' example_id = Some s' \<and>
      path (files s' ! 0) = ''a.ts'' \<and> reviewed (files s' ! 0) \<and>
      tokenCount (files s' ! 0) = Some 10)"
proof -
  have e: "char_tokenizer [] = Some 0" "char_tokenizer ''looks good'' = Some 10"
    by (simp_all add: char_tokenizer_def)
  have m: "''a.ts'' \<in> path ` set (files session_ab)"
    by (simp add: session_ab_simps newReviewFile_def)
  have u: "readFileSync (world_at ''t2'') (submitRoot ''/repo'' None) ''a.ts'' = None"
    by (simp add: world_at_def)
  have i: "findIndex (\<lambda>f. path f = ''a.ts'') (files session_ab) = Some i \<longleftrightarrow> i = 0" for i
    by (auto simp: session_ab_simps newReviewFile_def)
  from submit_unreadable_file [OF e resolve_run1 get_run1 m u]
  have "\<exists>s' st' x.
      submit_file_review char_tokenizer (world_at ''t2'') ''/repo'' ''a.ts'' ''looks good'' None
        (run char_tokenizer [start_ab]) = (ReviewSubmitted s' x, st') \<and>
      getSession st' example_id = Some s' \<and>
      path (files s' ! 0) = ''a.ts'' \<and> reviewed (files s' ! 0) \<and>
      tokenCount (files s' ! 0) = Some 10"
    by (auto simp: i)
  with e m u resolve_run1 get_run1 show ?thesis by simp
qed

text \<open>
  Claim C9. In every run, in a session whose file list has a path more than once, every
  entry that has an earlier entry with the same path is not reviewed; so the session has
  a file that is not reviewed and is not completed, and complete-review-session on it
  fails with the pending files and leaves the store unchanged. A submission on which the
  tokenizer returns succeeds, changes only the first entry with the path submitted and
  keeps the paths, so that the list has the same duplicate after it.
\<close>

theorem duplicate_paths_never_complete:
  assumes "getSession (run enc cs) sid = Some s" and "\<not> distinct (map path (files s))"
  shows "(\<forall>j<length (files s). (\<exists>i<j. path (files s ! i) = path (files s ! j))
            \<longrightarrow> \<not> reviewed (files s ! j)) \<and>
         (\<exists>f\<in>set (files s). \<not> reviewed f) \<and> \<not> completed s \<and>
         (\<forall>w key. resolveKey (run enc cs) key = Some sid \<longrightarrow>
            complete_review_session w key (run enc cs) =
              (PendingFiles (length (filter reviewed (files s)))
                 (length (filter (\<lambda>f. \<not> reviewed f) (files s))) (length (files s)),
               run enc cs) \<and>
            0 < length (filter (\<lambda>f. \<not> reviewed f) (files s))) \<and>
         (\<forall>w key filePath review pr i a b.
            resolveKey (run enc cs) key = Some sid \<and>
            findIndex (\<lambda>f. path f = filePath) (files s) = Some i \<and>
            enc (fileContentRead w key pr filePath) = Some a \<and> enc review = Some b \<longrightarrow>
            (\<exists>s' st' x.
               submit_file_review enc w key filePath review pr (run enc cs)
                 = (ReviewSubmitted s' x, st') \<and>
               getSession st' sid = Some s' \<and>
               (\<forall>j<i. path (files s ! j) \<noteq> filePath) \<and>
               (\<forall>j. j \<noteq> i \<longrightarrow> files s' ! j = files s ! j) \<and>
               map path (files s') = map path (files s)))"
proof (intro conjI allI impI)
  have stored: "sessions (run enc cs) sid = Some s"
    using assms(1) by (simp add: getSession_def)
  have l: "later_duplicates_pending s"
    using stored by (rule run_later_duplicates)
  show "\<not> reviewed (files s ! j)"
    if "j < length (files s)" and "\<exists>i<j. path (files s ! i) = path (files s ! j)" for j
    using l that unfolding later_duplicates_pending_def by blast
  have p: "0 < pendingCount s"
    using l assms(2) by (rule duplicate_pending)
  then show "\<exists>f\<in>set (files s). \<not> reviewed f"
    by (simp add: pendingCount_pos_iff)
  from p show "\<not> completed s"
    using run_completed [OF stored] by auto
  show "complete_review_session w key (run enc cs) =
              (PendingFiles (length (filter reviewed (files s)))
                 (length (filter (\<lambda>f. \<not> reviewed f) (files s))) (length (files s)),
               run enc cs)"
    if "resolveKey (run enc cs) key = Some sid" for w key
    using complete_review_session_pending [OF that assms(1) p, of w]
    by (simp add: pendingCount_def)
  show "0 < length (filter (\<lambda>f. \<not> reviewed f) (files s))"
    using p by (simp add: pendingCount_def)
next
  fix w key filePath review pr i a b
  assume h: "resolveKey (run enc cs) key = Some sid \<and>
            findIndex (\<lambda>f. path f = filePath) (files s) = Some i \<and>
            enc (fileContentRead w key pr filePath) = Some a \<and> enc review = Some b"
  from h have i: "i < length (files s)" "\<forall>j<i. path (files s ! j) \<noteq> filePath"
    using findIndex_Some [of "\<lambda>f. path f = filePath" "files s" i] by auto
  from h assms(1) submit_on_run [of enc cs key sid s filePath i w pr a review b]
  obtain s' st' x where
    s': "submit_file_review enc w key filePath review pr (run enc cs) = (ReviewSubmitted s' x, st')"
      "getSession st' sid = Some s'"
      "s' = (reviewedAt s i True review None (int a + int b))\<lparr>updatedAt := isoNow w\<rparr>"
    by blast
  from s'(3) i(1) have "\<forall>j. j \<noteq> i \<longrightarrow> files s' ! j = files s ! j"
    "map path (files s') = map path (files s)"
    by (simp_all add: files_reviewedAt map_update list_update_same_conv)
  with s'(1,2) i(2) show "\<exists>s' st' x.
               submit_file_review enc w key filePath review pr (run enc cs)
                 = (ReviewSubmitted s' x, st') \<and>
               getSession st' sid = Some s' \<and>
               (\<forall>j<i. path (files s ! j) \<noteq> filePath) \<and>
               (\<forall>j. j \<noteq> i \<longrightarrow> files s' ! j = files s ! j) \<and>
               map path (files s') = map path (files s)"
    by blast
qed

theorem duplicate_paths_never_complete_witness:
  "getSession (run char_tokenizer [start_dup, submit_a]) example_id = Some session_dup_a \<and>
   \<not> distinct (map path (files session_dup_a)) \<and>
   path (files session_dup_a ! 0) = path (files session_dup_a ! 1) \<and>
   reviewed (files session_dup_a ! 0) \<and>
   \<not> reviewed (files session_dup_a ! 1) \<and>
   \<not> completed session_dup_a \<and>
   complete_review_session (world_at ''t3'') ''/repo'' (run char_tokenizer [start_dup, submit_a])
     = (PendingFiles 1 1 2, run char_tokenizer [start_dup, submit_a]) \<and>
   (\<exists>s' st' x.
      submit_file_review char_tokenizer (world_at ''t3'') ''/repo'' ''a.ts'' ''again'' None
        (run char_tokenizer [start_dup, submit_a]) = (ReviewSubmitted s' x, st') \<and>
      getSession st' example_id = Some s' \<and>
      files s' ! 1 = newReviewFile ''a.ts'')"
proof -
  let ?st = "run char_tokenizer [start_dup, submit_a]"
  have g: "getSession ?st example_id = Some session_dup_a"
    using getSession_store_of [of session_dup_a] by (simp add: run_dup2 session_dup_a_simps)
  have r: "resolveKey ?st ''/repo'' = Some example_id"
    using resolveKey_store_of [of session_dup_a]
    by (simp add: run_dup2 session_dup_a_simps example_id_simps)
  have d: "\<not> distinct (map path (files session_dup_a))"
    by (simp add: session_dup_a_simps file_a_def newReviewFile_def)
  have i: "findIndex (\<lambda>f. path f = ''a.ts'') (files session_dup_a) = Some 0"
    by (simp add: session_dup_a_simps file_a_def)
  have a: "char_tokenizer (fileContentRead (world_at ''t3'') ''/repo'' None ''a.ts'') = Some 0"
    "char_tokenizer ''again'' = Some 5"
    by (simp_all add: fileContentRead_world_at char_tokenizer_def)
  note t = duplicate_paths_never_complete [OF g d]
  have p: "path (files session_dup_a ! 0) = path (files session_dup_a ! 1)"
    by (simp add: session_dup_a_simps file_a_def newReviewFile_def)
  have 0: "\<not> reviewed (files session_dup_a ! 1)"
    using t [THEN conjunct1, rule_format, of 1] p
    by (auto simp: session_dup_a_simps)
  have 1: "complete_review_session (world_at ''t3'') ''/repo'' ?st = (PendingFiles 1 1 2, ?st)"
    using t [THEN conjunct2, THEN conjunct2, THEN conjunct2, THEN conjunct1, rule_format, OF r,
        of "world_at ''t3''"]
    by (simp add: session_dup_a_simps file_a_def newReviewFile_def)
  have "\<exists>s' st' x.
      submit_file_review char_tokenizer (world_at ''t3'') ''/repo'' ''a.ts'' ''again'' None ?st
        = (ReviewSubmitted s' x, st') \<and>
      getSession st' example_id = Some s' \<and>
      (\<forall>j<0. path (files session_dup_a ! j) \<noteq> ''a.ts'') \<and>
      (\<forall>j. j \<noteq> 0 \<longrightarrow> files s' ! j = files session_dup_a ! j) \<and>
      map path (files s') = map path (files session_dup_a)"
    using t [THEN conjunct2, THEN conjunct2, THEN conjunct2, THEN conjunct2] r i a by blast
  then obtain s' st' x where s':
      "submit_file_review char_tokenizer (world_at ''t3'') ''/repo'' ''a.ts'' ''again'' None ?st
        = (ReviewSubmitted s' x, st')"
      "getSession st' example_id = Some s'"
      "\<forall>j. j \<noteq> 0 \<longrightarrow> files s' ! j = files session_dup_a ! j"
    by blast
  from s'(3) have "files s' ! 1 = files session_dup_a ! 1"
    by simp
  then have "files s' ! 1 = newReviewFile ''a.ts''"
    by (simp add: session_dup_a_simps)
  with s'(1,2) have 2: "\<exists>s' st' x.
      submit_file_review char_tokenizer (world_at ''t3'') ''/repo'' ''a.ts'' ''again'' None ?st
        = (ReviewSubmitted s' x, st') \<and>
      getSession st' example_id = Some s' \<and>
      files s' ! 1 = newReviewFile ''a.ts''"
    by blast
  from t have 3: "\<not> completed session_dup_a" by blast
  from g d p 0 1 2 3 show ?thesis
    by (simp add: session_dup_a_simps file_a_def newReviewFile_def)
qed

text \<open>
  Claim C10. For a key that resolves to a session and a path that is not in its file
  list, submit-file-review answers with the error and the store, hence every field of
  every stored session, is the one before the call.
\<close>

theorem submit_unknown_path_rejected:
  assumes "resolveKey st key = Some sid" and "getSession st sid = Some s"
      and "filePath \<notin> path ` set (files s)"
  shows "submit_file_review enc w key filePath review pr st = (ErrorStatus FailedToUpdate, st)"
proof -
  from assms(3) have "findIndex (\<lambda>f. path f = filePath) (files s) = None"
    by (auto simp: findIndex_None)
  with assms(2) have "updateFileReview enc w sid filePath fc True review None st = Inr (None, st)"
    for fc
    by (simp add: updateFileReview_def)
  with assms(1) show ?thesis
    by (simp add: submit_file_review_def Let_def)
qed

theorem submit_unknown_path_rejected_witness:
  "resolveKey (run char_tokenizer [start_ab]) ''/repo'' = Some example_id \<and>
   getSession (run char_tokenizer [start_ab]) example_id = Some session_ab \<and>
   ''c.ts'' \<notin> path ` set (files session_ab) \<and>
   submit_file_review char_tokenizer (world_at ''t2'') ''/repo'' ''c.ts'' ''fine'' None
     (run char_tokenizer [start_ab])
     = (ErrorStatus FailedToUpdate, run char_tokenizer [start_ab])"
proof -
  have p: "''c.ts'' \<notin> path ` set (files session_ab)"
    by (simp add: session_ab_simps newReviewFile_def)
  from submit_unknown_path_rejected [OF resolve_run1 get_run1 p]
  show ?thesis
    using resolve_run1 get_run1 p by simp
qed

end
